theory Spec2Isabelle
  imports Complex_Main "HOL-Library.Multiset"
begin

section \<open>Strings\<close>

text \<open>
  JavaScript strings are modelled as \<^typ>\<open>string\<close> (lists of characters), restricted to
  the ASCII range. The string methods the services call are written out as functions:
  \<open>toLowerCase\<close>, \<open>includes\<close>, \<open>split(' ')\<close> and \<open>trim\<close>.
\<close>

definition toLowerCase_char :: "char \<Rightarrow> char" where
  "toLowerCase_char c =
     (let n = (of_char c :: nat) in if 65 \<le> n \<and> n \<le> 90 then char_of (n + 32) else c)"

definition toLowerCase :: "string \<Rightarrow> string" where
  "toLowerCase s = map toLowerCase_char s"

fun startsWith :: "string \<Rightarrow> string \<Rightarrow> bool" where
  "startsWith s [] = True"
| "startsWith [] (c # cs) = False"
| "startsWith (x # xs) (c # cs) = (x = c \<and> startsWith xs cs)"

text \<open>\<open>s.includes(t)\<close>: \<open>t\<close> occurs in \<open>s\<close> as a contiguous substring; the empty
  string occurs in every string.\<close>

fun js_includes :: "string \<Rightarrow> string \<Rightarrow> bool" where
  "js_includes [] t = (t = [])"
| "js_includes (x # xs) t = (startsWith (x # xs) t \<or> js_includes xs t)"

text \<open>\<open>s.split(' ')\<close>: the pieces between single spaces, empty pieces kept, so the
  empty string splits into one empty piece.\<close>

fun split_space :: "string \<Rightarrow> string list" where
  "split_space [] = [[]]"
| "split_space (c # cs) =
     (if c = CHR '' '' then [] # split_space cs
      else (case split_space cs of
              [] \<Rightarrow> [[c]]
            | w # ws \<Rightarrow> (c # w) # ws))"

definition is_whitespace :: "char \<Rightarrow> bool" where
  "is_whitespace c = ((of_char c :: nat) \<in> {9, 10, 11, 12, 13, 32})"

definition trim :: "string \<Rightarrow> string" where
  "trim s = rev (dropWhile is_whitespace (rev (dropWhile is_whitespace s)))"

section \<open>Data model (types/index.ts)\<close>

text \<open>The fields of the API types that the matching core reads. The nested
  \<open>video.snippet\<close> and \<open>video.id\<close> objects are flattened.\<close>

record SpotifyArtist =
  artist_id :: string
  artist_name :: string

record SpotifyTrack =
  track_id :: string
  track_name :: string
  artists :: "SpotifyArtist list"

record YouTubeVideo =
  videoId :: string
  title :: string
  channelTitle :: string

section \<open>Match scorer (YouTubeService.findBestMatch)\<close>

text \<open>\<open>track.artists[0]?.name.toLowerCase() || ''\<close>\<close>

definition lower_artist :: "SpotifyTrack \<Rightarrow> string" where
  "lower_artist track =
     (case artists track of [] \<Rightarrow> [] | a # _ \<Rightarrow> toLowerCase (artist_name a))"

text \<open>The body of the \<open>for\<close> loop of \<open>findBestMatch\<close> up to the comparison: the score of
  one video.\<close>

definition score :: "SpotifyTrack \<Rightarrow> YouTubeVideo \<Rightarrow> int" where
  "score track video =
     (let trackName = toLowerCase (track_name track);
          artistName = lower_artist track;
          videoTitle = toLowerCase (title video);
          channel = toLowerCase (channelTitle video);
          trackWords = filter (\<lambda>word. length word > 2) (split_space trackName);
          artistWords = filter (\<lambda>word. length word > 2) (split_space artistName)
      in (if js_includes videoTitle trackName then 3 else 0)
       + (if js_includes videoTitle artistName then 3 else 0)
       + int (length (filter (\<lambda>word. js_includes videoTitle word) trackWords))
       + int (length (filter (\<lambda>word. js_includes videoTitle word \<or> js_includes channel word)
                        artistWords))
       + (if js_includes videoTitle ''official'' then 2 else 0)
       + (if js_includes channel artistName then 2 else 0)
       - (if js_includes videoTitle ''live'' then 1 else 0)
       - (if js_includes videoTitle ''cover'' then 2 else 0)
       - (if js_includes videoTitle ''karaoke'' then 3 else 0)
       + (if js_includes channel ''official'' \<or> js_includes channel ''records'' then 1 else 0))"

text \<open>The loop itself, over the pair \<open>(bestVideo, bestScore)\<close>.\<close>

fun best_loop ::
  "SpotifyTrack \<Rightarrow> YouTubeVideo list \<Rightarrow> YouTubeVideo option \<times> int \<Rightarrow> YouTubeVideo option \<times> int"
where
  "best_loop track [] acc = acc"
| "best_loop track (video # videos) (bestVideo, bestScore) =
     (if score track video > bestScore
      then best_loop track videos (Some video, score track video)
      else best_loop track videos (bestVideo, bestScore))"

definition findBestMatch :: "SpotifyTrack \<Rightarrow> YouTubeVideo list \<Rightarrow> YouTubeVideo option" where
  "findBestMatch track videos =
     (if length videos = 0 then None
      else (case best_loop track videos (None, 0) of
              (bestVideo, bestScore) \<Rightarrow> if bestScore \<ge> 2 then bestVideo else None))"

section \<open>Query generator (YouTubeService.generateSearchQueries)\<close>

text \<open>\<open>track.artists[0]?.name || ''\<close>: the primary artist.\<close>

definition primaryArtist :: "SpotifyTrack \<Rightarrow> string" where
  "primaryArtist track = (case artists track of [] \<Rightarrow> [] | a # _ \<Rightarrow> artist_name a)"

text \<open>\<open>[...new Set(queries)]\<close>: a JavaScript \<open>Set\<close> keeps its values in insertion
  order and ignores a value it already holds.\<close>

definition set_add :: "'a list \<Rightarrow> 'a \<Rightarrow> 'a list" where
  "set_add seen x = (if x \<in> set seen then seen else seen @ [x])"

definition set_values :: "'a list \<Rightarrow> 'a list" where
  "set_values xs = foldl set_add [] xs"

text \<open>
  The array literal \<open>queries\<close>. \<open>cleanTrackName\<close> is a chain of regular-expression
  replacements; the generator only concatenates its result, so it is a parameter here and
  everything below holds for every such function. \<open>CHR 0x22\<close> is the double quote.
\<close>

definition query_candidates :: "(string \<Rightarrow> string) \<Rightarrow> SpotifyTrack \<Rightarrow> string list" where
  "query_candidates cleanTrackName track =
     (let trackName = track_name track;
          artistName = primaryArtist track;
          cleanName = cleanTrackName trackName
      in [artistName @ '' '' @ cleanName @ '' official'',
          artistName @ '' '' @ cleanName @ '' official audio'',
          artistName @ '' '' @ cleanName @ '' official video'',
          artistName @ '' '' @ cleanName,
          trackName @ '' '' @ artistName,
          cleanName @ '' '' @ artistName,
          [CHR 0x22] @ artistName @ [CHR 0x22, CHR '' '', CHR 0x22] @ cleanName @ [CHR 0x22]])"

definition generateSearchQueries :: "(string \<Rightarrow> string) \<Rightarrow> SpotifyTrack \<Rightarrow> string list" where
  "generateSearchQueries cleanTrackName track =
     filter (\<lambda>q. length (trim q) > 0) (set_values (query_candidates cleanTrackName track))"

section \<open>Search orchestrator (YouTubeService.searchVideo, searchVideos)\<close>

record ApiError =
  status :: nat
  message :: string

text \<open>\<open>createApiError\<close> applied to an error that is already an \<open>ApiError\<close> (it has no
  \<open>response\<close> field, so the status falls back to 500).\<close>

definition createApiError :: "ApiError \<Rightarrow> ApiError" where
  "createApiError e =
     \<lparr>status = 500,
      message = ''YouTube API Error: '' @
        (if message e = [] then ''Unknown YouTube API error'' else message e)\<rparr>"

text \<open>The HTTP request of \<open>searchVideos\<close> is a capability: for a query and a result
  limit it answers with the items or fails with the error the response interceptor throws.
  \<open>searchVideos\<close> returns the items and rethrows a failure.\<close>

type_synonym search_api = "string \<Rightarrow> nat \<Rightarrow> ApiError + YouTubeVideo list"

definition searchVideos :: "search_api \<Rightarrow> string \<Rightarrow> nat \<Rightarrow> ApiError + YouTubeVideo list" where
  "searchVideos get query maxResults =
     (case get query maxResults of
        Inl e \<Rightarrow> Inl (createApiError e)
      | Inr items \<Rightarrow> Inr items)"

text \<open>The \<open>for\<close> loop over the queries inside the \<open>try\<close> block. The second component
  is the list of queries passed to \<open>searchVideos\<close>, in order; an exception leaves the loop
  at once.\<close>

fun query_loop ::
  "search_api \<Rightarrow> SpotifyTrack \<Rightarrow> string list \<Rightarrow> (ApiError + YouTubeVideo option) \<times> string list"
where
  "query_loop get track [] = (Inr None, [])"
| "query_loop get track (query # queries) =
     (case searchVideos get query 5 of
        Inl e \<Rightarrow> (Inl e, [query])
      | Inr videos \<Rightarrow>
          (case (if length videos > 0 then findBestMatch track videos else None) of
             Some bestMatch \<Rightarrow> (Inr (Some bestMatch), [query])
           | None \<Rightarrow>
               (case query_loop get track queries of
                  (r, issued) \<Rightarrow> (r, query # issued))))"

text \<open>\<open>searchVideo\<close> with the queries it issued: the \<open>catch\<close> turns every exception
  into \<open>null\<close>.\<close>

definition searchVideo_issued ::
  "search_api \<Rightarrow> (string \<Rightarrow> string) \<Rightarrow> SpotifyTrack \<Rightarrow> YouTubeVideo option \<times> string list"
where
  "searchVideo_issued get cleanTrackName track =
     (case query_loop get track (generateSearchQueries cleanTrackName track) of
        (Inl e, issued) \<Rightarrow> (None, issued)
      | (Inr r, issued) \<Rightarrow> (r, issued))"

definition searchVideo ::
  "search_api \<Rightarrow> (string \<Rightarrow> string) \<Rightarrow> SpotifyTrack \<Rightarrow> YouTubeVideo option"
where
  "searchVideo get cleanTrackName track = fst (searchVideo_issued get cleanTrackName track)"

text \<open>What the specification asks for instead: a failed query counts as a query without
  candidates. This capability answers a failure with the empty list.\<close>

definition failure_as_no_candidates :: "search_api \<Rightarrow> search_api" where
  "failure_as_no_candidates get query maxResults =
     (case get query maxResults of Inl e \<Rightarrow> Inr [] | Inr items \<Rightarrow> Inr items)"

section \<open>Confidence estimators\<close>

text \<open>JavaScript numbers are modelled as rationals: \<open>0.5\<close> is \<open>1/2\<close>, \<open>0.3\<close> is
  \<open>3/10\<close>.\<close>

text \<open>\<open>calculateMatchConfidence\<close> of scripts/search-tracks.ts.\<close>

definition calculateMatchConfidence :: "SpotifyTrack \<Rightarrow> YouTubeVideo \<Rightarrow> rat" where
  "calculateMatchConfidence track video =
     (let trackName = toLowerCase (track_name track);
          artistName = lower_artist track;
          videoTitle = toLowerCase (title video);
          channel = toLowerCase (channelTitle video);
          c = 1 / 2
            + (if js_includes videoTitle trackName then 3 / 10 else 0)
            + (if js_includes videoTitle artistName \<or> js_includes channel artistName
               then 2 / 10 else 0)
            + (if videoTitle = artistName @ '' '' @ trackName \<or>
                  videoTitle = trackName @ '' '' @ artistName then 2 / 10 else 0)
            + (if js_includes videoTitle ''official'' then 1 / 10 else 0)
            + (if js_includes channel artistName then 1 / 10 else 0)
            - (if js_includes videoTitle ''cover'' \<or> js_includes videoTitle ''remix''
               then 2 / 10 else 0)
            - (if js_includes videoTitle ''live'' \<or> js_includes videoTitle ''concert''
               then 1 / 10 else 0)
            - (if js_includes videoTitle ''karaoke'' \<or> js_includes videoTitle ''instrumental''
               then 3 / 10 else 0)
      in max 0 (min 1 c))"

text \<open>\<open>YouTubeService.calculateConfidence\<close>, the one \<open>findMatchesForTracks\<close> calls.\<close>

definition calculateConfidence :: "SpotifyTrack \<Rightarrow> YouTubeVideo \<Rightarrow> rat" where
  "calculateConfidence track video =
     (let trackName = toLowerCase (track_name track);
          artistName = lower_artist track;
          videoTitle = toLowerCase (title video);
          channel = toLowerCase (channelTitle video);
          c = 1 / 2
            + (if js_includes videoTitle trackName then 3 / 10 else 0)
            + (if js_includes videoTitle artistName \<or> js_includes channel artistName
               then 2 / 10 else 0)
            + (if js_includes videoTitle ''official'' then 1 / 10 else 0)
      in min c 1)"

section \<open>Matching a list of tracks (YouTubeService.findMatchesForTracks)\<close>

record TrackMapping =
  mapping_track :: SpotifyTrack
  mapping_video :: YouTubeVideo
  mapping_confidence :: rat

text \<open>One batch: the tracks are searched, a track without a video yields \<open>null\<close>, and
  the \<open>null\<close>s are filtered out; \<open>Promise.all\<close> keeps the order of the batch.\<close>

definition match_batch ::
  "search_api \<Rightarrow> (string \<Rightarrow> string) \<Rightarrow> SpotifyTrack list \<Rightarrow> TrackMapping list"
where
  "match_batch get cleanTrackName batch =
     List.map_filter
       (\<lambda>track. case searchVideo get cleanTrackName track of
                  Some video \<Rightarrow>
                    Some \<lparr>mapping_track = track, mapping_video = video,
                          mapping_confidence = calculateConfidence track video\<rparr>
                | None \<Rightarrow> None)
       batch"

text \<open>The loop over batches of three tracks, \<open>tracks.slice(i, i + 3)\<close> for
  \<open>i = 0, 3, 6, ...\<close>\<close>

fun findMatchesForTracks ::
  "search_api \<Rightarrow> (string \<Rightarrow> string) \<Rightarrow> SpotifyTrack list \<Rightarrow> TrackMapping list"
where
  "findMatchesForTracks get cleanTrackName [] = []"
| "findMatchesForTracks get cleanTrackName (t # ts) =
     match_batch get cleanTrackName (take 3 (t # ts)) @
     findMatchesForTracks get cleanTrackName (drop 3 (t # ts))"

section \<open>Progress state machine (scripts/search-tracks.ts)\<close>

text \<open>The persisted records, with the nested \<open>spotify_playlist\<close>, \<open>progress\<close> and
  \<open>search_stats\<close> objects flattened. Time stamps are left out.\<close>

record TrackSearchResult =
  spotify_track :: SpotifyTrack
  youtube_video :: "YouTubeVideo option"
  confidence :: rat
  search_queries_tried :: "string list"

record SpotifyPlaylist =
  playlist_id :: string
  playlist_name :: string
  playlist_total :: int
  playlist_url :: string

text \<open>
  The numbers of the progress cursor. The batch size is \<open>parseInt\<close> of a command-line
  argument or of an environment variable, with no validation: an integer of either sign,
  or \<open>NaN\<close> when the string starts with no digit. \<open>JSON.stringify\<close> writes \<open>NaN\<close> as
  \<open>null\<close>, so a cursor read back from the progress file may be \<open>null\<close>, which counts as
  0 in arithmetic and as an index.
\<close>

datatype number = Num int | NaN | Null

definition to_number :: "number \<Rightarrow> int option" where
  "to_number x = (case x of Num n \<Rightarrow> Some n | Null \<Rightarrow> Some 0 | NaN \<Rightarrow> None)"

text \<open>\<open>x + y\<close>\<close>

definition num_add :: "number \<Rightarrow> number \<Rightarrow> number" where
  "num_add x y =
     (case to_number x of
        None \<Rightarrow> NaN
      | Some a \<Rightarrow> (case to_number y of None \<Rightarrow> NaN | Some b \<Rightarrow> Num (a + b)))"

text \<open>\<open>Math.min(x, n)\<close> for an array length \<open>n\<close>\<close>

definition math_min :: "number \<Rightarrow> int \<Rightarrow> number" where
  "math_min x n = (case to_number x of None \<Rightarrow> NaN | Some a \<Rightarrow> Num (min a n))"

text \<open>The integer that \<open>slice\<close> makes of an index: \<open>NaN\<close> becomes 0.\<close>

definition to_integer :: "number \<Rightarrow> int" where
  "to_integer x = (case to_number x of None \<Rightarrow> 0 | Some a \<Rightarrow> a)"

text \<open>\<open>x % 5 === 0\<close>: false for \<open>NaN\<close>; for an integer the sign of the remainder does
  not matter.\<close>

definition multiple_of_5 :: "number \<Rightarrow> bool" where
  "multiple_of_5 x = (case to_number x of None \<Rightarrow> False | Some a \<Rightarrow> a mod 5 = 0)"

definition json_number :: "number \<Rightarrow> number" where
  "json_number x = (case x of NaN \<Rightarrow> Null | Num n \<Rightarrow> Num n | Null \<Rightarrow> Null)"

record SearchProgress =
  spotify_playlist :: SpotifyPlaylist
  tracks :: "TrackSearchResult list"
  tracks_processed :: int
  tracks_found :: int
  tracks_not_found :: int
  batch_size :: number
  current_batch_start :: number
  total_quota_used :: int
  searches_performed :: int

text \<open>\<open>loadOrCreateProgress\<close>: the stored record when the progress file exists, a new
  one otherwise. \<open>envBatchSize\<close> is \<open>parseInt(process.env.SEARCH_BATCH_SIZE || '50')\<close>.\<close>

definition loadOrCreateProgress ::
  "SearchProgress option \<Rightarrow> SpotifyPlaylist \<Rightarrow> number \<Rightarrow> SearchProgress"
where
  "loadOrCreateProgress stored playlist envBatchSize =
     (case stored of
        Some existing \<Rightarrow> existing
      | None \<Rightarrow>
          \<lparr>spotify_playlist = playlist,
           tracks = [],
           tracks_processed = 0,
           tracks_found = 0,
           tracks_not_found = 0,
           batch_size = envBatchSize,
           current_batch_start = Num 0,
           total_quota_used = 0,
           searches_performed = 0\<rparr>)"

text \<open>
  \<open>saveProgress\<close>. The progress file is modelled by the list of records written to it, in
  order, together with the number of calls of \<open>writeFileSync\<close> so far. The capability
  \<open>writes\<close> says which of these calls succeed; a call that fails throws and leaves the
  file as it was. The first component of the result is \<open>False\<close> when \<open>saveProgress\<close>
  throws. The record is written as JSON.
\<close>

type_synonym progress_file = "SearchProgress list \<times> nat"

definition to_json :: "SearchProgress \<Rightarrow> SearchProgress" where
  "to_json progress =
     progress\<lparr>batch_size := json_number (batch_size progress),
              current_batch_start := json_number (current_batch_start progress)\<rparr>"

definition saveProgress ::
  "(nat \<Rightarrow> bool) \<Rightarrow> SearchProgress \<Rightarrow> progress_file \<Rightarrow> bool \<times> progress_file"
where
  "saveProgress writes progress file =
     (case file of
        (saved, calls) \<Rightarrow>
          if writes calls then (True, saved @ [to_json progress], calls + 1)
          else (False, saved, calls + 1))"

text \<open>\<open>Array.prototype.slice(start, end)\<close>: a negative index counts from the end of the
  array, and both indices are clamped to the array.\<close>

definition js_slice :: "'a list \<Rightarrow> int \<Rightarrow> int \<Rightarrow> 'a list" where
  "js_slice xs start end =
     (let n = int (length xs);
          k = (if start < 0 then max (n + start) 0 else min start n);
          final = (if end < 0 then max (n + end) 0 else min end n)
      in take (nat (final - k)) (drop (nat k) xs))"

text \<open>
  The \<open>catch\<close> block of the loop of \<open>searchTrackBatch\<close>: it counts the track as processed
  and not found and pushes a result without a video, whatever the \<open>try\<close> block did before
  it threw.
\<close>

definition catch_block :: "SpotifyTrack \<Rightarrow> SearchProgress \<Rightarrow> SearchProgress" where
  "catch_block track progress =
     progress
       \<lparr>tracks_processed := tracks_processed progress + 1,
        tracks_not_found := tracks_not_found progress + 1,
        tracks := tracks progress @
          [\<lparr>spotify_track = track, youtube_video = None, confidence = 0,
            search_queries_tried = []\<rparr>]\<rparr>"

text \<open>
  The body of the \<open>for\<close> loop of \<open>searchTrackBatch\<close>, on the progress record and the
  progress file. The search is a capability that returns a video, returns \<open>null\<close> or
  throws (\<open>Inl\<close>). Two calls inside the \<open>try\<close> block can throw: the search, before
  anything is recorded, and \<open>saveProgress\<close> at the checkpoint after every fifth track, when
  the track is already recorded and the cursor already moved.
\<close>

definition loop_body ::
  "(nat \<Rightarrow> bool) \<Rightarrow> (SpotifyTrack \<Rightarrow> string + YouTubeVideo option) \<Rightarrow> number \<Rightarrow>
   SpotifyTrack \<Rightarrow> int \<Rightarrow> SearchProgress \<times> progress_file \<Rightarrow> SearchProgress \<times> progress_file"
where
  "loop_body writes search startIndex track i st =
     (case st of
        (progress, file) \<Rightarrow>
          (let globalIndex = num_add startIndex (Num i) in
           case search track of
             Inr youtubeVideo \<Rightarrow>
               (let conf = (case youtubeVideo of
                              Some video \<Rightarrow> calculateMatchConfidence track video
                            | None \<Rightarrow> 0);
                    searchResult =
                      \<lparr>spotify_track = track, youtube_video = youtubeVideo, confidence = conf,
                       search_queries_tried = []\<rparr>;
                    p1 = progress
                      \<lparr>tracks := tracks progress @ [searchResult],
                       tracks_processed := tracks_processed progress + 1,
                       searches_performed := searches_performed progress + 1,
                       total_quota_used := total_quota_used progress + 100\<rparr>;
                    p2 = (if youtubeVideo \<noteq> None
                          then p1\<lparr>tracks_found := tracks_found p1 + 1\<rparr>
                          else p1\<lparr>tracks_not_found := tracks_not_found p1 + 1\<rparr>)
                in if multiple_of_5 (num_add globalIndex (Num 1))
                   then (let p3 = p2\<lparr>current_batch_start := num_add globalIndex (Num 1)\<rparr>
                         in case saveProgress writes p3 file of
                              (saved, file1) \<Rightarrow>
                                if saved then (p3, file1) else (catch_block track p3, file1))
                   else (p2, file))
           | Inl err \<Rightarrow> (catch_block track progress, file)))"

text \<open>The loop over the batch, \<open>i = 0, 1, ...\<close>\<close>

fun batch_loop ::
  "(nat \<Rightarrow> bool) \<Rightarrow> (SpotifyTrack \<Rightarrow> string + YouTubeVideo option) \<Rightarrow> number \<Rightarrow>
   SpotifyTrack list \<Rightarrow> int \<Rightarrow> SearchProgress \<times> progress_file \<Rightarrow> SearchProgress \<times> progress_file"
where
  "batch_loop writes search startIndex [] i st = st"
| "batch_loop writes search startIndex (track # rest) i st =
     batch_loop writes search startIndex rest (i + 1)
       (loop_body writes search startIndex track i st)"

text \<open>\<open>searchTrackBatch\<close>. The last component of the result is \<open>False\<close> when the
  \<open>saveProgress\<close> after the loop throws, which ends the function with that exception.\<close>

definition searchTrackBatch ::
  "(nat \<Rightarrow> bool) \<Rightarrow> (SpotifyTrack \<Rightarrow> string + YouTubeVideo option) \<Rightarrow> SpotifyTrack list \<Rightarrow>
   number \<Rightarrow> number \<Rightarrow> SearchProgress \<times> progress_file \<Rightarrow> SearchProgress \<times> progress_file \<times> bool"
where
  "searchTrackBatch writes search allTracks startIndex batchSize st =
     (let endIndex = math_min (num_add startIndex batchSize) (int (length allTracks));
          batch = js_slice allTracks (to_integer startIndex) (to_integer endIndex)
      in case batch_loop writes search startIndex batch 0 st of
           (progress, file) \<Rightarrow>
             (let p = progress\<lparr>current_batch_start := endIndex\<rparr>
              in case saveProgress writes p file of
                   (returned, file1) \<Rightarrow> (p, file1, returned)))"

text \<open>
  One run of \<open>main\<close> on the progress file, with the way it ends: it reads the record
  written last (a new record when nothing was written yet), stops at once for an empty
  playlist or when every track is processed, and otherwise searches one batch and saves
  once more. An exception from \<open>saveProgress\<close> outside the loop ends the run.
\<close>

datatype session_end = Completed | AllProcessed | NoTracksInPlaylist | WriteFailed

definition search_session ::
  "(nat \<Rightarrow> bool) \<Rightarrow> (SpotifyTrack \<Rightarrow> string + YouTubeVideo option) \<Rightarrow> SpotifyPlaylist \<Rightarrow>
   SpotifyTrack list \<Rightarrow> number \<Rightarrow> number \<Rightarrow> progress_file \<Rightarrow> session_end \<times> progress_file"
where
  "search_session writes search playlist allTracks envBatchSize batchSize file =
     (let stored = (if fst file = [] then None else Some (last (fst file)));
          progress = loadOrCreateProgress stored playlist envBatchSize
      in if length allTracks = 0 then (NoTracksInPlaylist, file)
         else if int (length allTracks) - tracks_processed progress = 0 then (AllProcessed, file)
         else (case searchTrackBatch writes search allTracks (current_batch_start progress)
                      batchSize (progress, file) of
                 (p, file1, returned) \<Rightarrow>
                   if returned
                   then (case saveProgress writes p file1 of
                           (saved, file2) \<Rightarrow> (if saved then Completed else WriteFailed, file2))
                   else (WriteFailed, file1)))"

text \<open>Successive runs on the same playlist, one per requested batch size. The result is
  the progress file after the last run.\<close>

fun search_sessions ::
  "(nat \<Rightarrow> bool) \<Rightarrow> (SpotifyTrack \<Rightarrow> string + YouTubeVideo option) \<Rightarrow> SpotifyPlaylist \<Rightarrow>
   SpotifyTrack list \<Rightarrow> number \<Rightarrow> number list \<Rightarrow> progress_file \<Rightarrow> progress_file"
where
  "search_sessions writes search playlist allTracks envBatchSize [] file = file"
| "search_sessions writes search playlist allTracks envBatchSize (batchSize # later) file =
     search_sessions writes search playlist allTracks envBatchSize later
       (snd (search_session writes search playlist allTracks envBatchSize batchSize file))"

text \<open>The cursor invariant of a progress record.\<close>

definition cursor_invariant :: "SearchProgress \<Rightarrow> bool" where
  "cursor_invariant p =
     (tracks_processed p = int (length (tracks p)) \<and>
      tracks_found p + tracks_not_found p = tracks_processed p \<and>
      current_batch_start p = Num (tracks_processed p))"

text \<open>The search that \<open>main\<close> passes to \<open>searchTrackBatch\<close>: \<open>YouTubeService.searchVideo\<close>,
  which never throws.\<close>

definition youtube_search ::
  "search_api \<Rightarrow> (string \<Rightarrow> string) \<Rightarrow> SpotifyTrack \<Rightarrow> string + YouTubeVideo option"
where
  "youtube_search get cleanTrackName track = Inr (searchVideo get cleanTrackName track)"

section \<open>Playlist build state machine (create-playlist script)\<close>

record YouTubePlaylistResponse =
  yt_playlist_id :: string
  yt_playlist_title :: string

text \<open>The answer of \<open>addVideoToPlaylist\<close>: \<open>{ success, error?, errorType? }\<close>.\<close>

record AddResult =
  success :: bool
  add_error :: "string option"
  add_errorType :: "string option"

record TrackFailure =
  failed_track :: TrackSearchResult
  error :: string
  errorType :: string

text \<open>\<open>PlaylistCreationResult\<close>, with \<open>creation_stats\<close> flattened and the time stamp left
  out. The build script declares \<open>tracks_failed: TrackFailure[]\<close>, the retry script
  \<open>tracks_failed: TrackSearchResult[]\<close>; the element type is the parameter \<open>'f\<close>.\<close>

record 'f PlaylistCreationResult =
  youtube_playlist :: YouTubePlaylistResponse
  tracks_added :: "TrackSearchResult list"
  tracks_failed :: "'f list"
  quota_used :: int
  success_rate :: rat
  failure_breakdown :: "string \<rightharpoonup> nat"

text \<open>The external capabilities of the build and retry scripts. A sum is a call that may
  throw (\<open>Inl\<close>). \<open>addVideoToPlaylist\<close> gets the number of the call, the playlist id and
  the video id.\<close>

record capabilities =
  getAccessToken :: "string + string"
  createPlaylist :: "string \<Rightarrow> string \<Rightarrow> ApiError + YouTubePlaylistResponse"
  addVideoToPlaylist :: "nat \<Rightarrow> string \<Rightarrow> string \<Rightarrow> string + AddResult"

datatype run_error =
  NoMatchesFound
  | NoFailedTracks
  | TokenFailed string
  | CreatePlaylistFailed ApiError
  | VideoIsNull

text \<open>\<open>x || d\<close> on an optional string: the default replaces \<open>undefined\<close> and the empty
  string.\<close>

definition or_default :: "string option \<Rightarrow> string \<Rightarrow> string" where
  "or_default x d = (case x of None \<Rightarrow> d | Some v \<Rightarrow> if v = [] then d else v)"

text \<open>\<open>failureBreakdown[k] = (failureBreakdown[k] || 0) + 1\<close>\<close>

definition count_failure :: "(string \<rightharpoonup> nat) \<Rightarrow> string \<Rightarrow> (string \<rightharpoonup> nat)" where
  "count_failure breakdown k =
     breakdown(k \<mapsto> (case breakdown k of None \<Rightarrow> 0 | Some n \<Rightarrow> n) + 1)"

text \<open>The loop that adds the videos. The state is \<open>(tracksAdded, tracksFailed,
  failureBreakdown, quotaUsed)\<close>. A result without a video makes the logging before the
  \<open>try\<close> block throw, which ends the function.\<close>

fun add_loop ::
  "(nat \<Rightarrow> string \<Rightarrow> string \<Rightarrow> string + AddResult) \<Rightarrow> string \<Rightarrow> TrackSearchResult list \<Rightarrow> nat \<Rightarrow>
   TrackSearchResult list \<times> TrackFailure list \<times> (string \<rightharpoonup> nat) \<times> int \<Rightarrow>
   run_error + TrackSearchResult list \<times> TrackFailure list \<times> (string \<rightharpoonup> nat) \<times> int"
where
  "add_loop add playlistId [] i st = Inr st"
| "add_loop add playlistId (trackResult # rest) i
     (tracksAdded, tracksFailed, failureBreakdown, quotaUsed) =
     (case youtube_video trackResult of
        None \<Rightarrow> Inl VideoIsNull
      | Some video \<Rightarrow>
          (case add i playlistId (videoId video) of
             Inr result \<Rightarrow>
               if success result
               then add_loop add playlistId rest (i + 1)
                      (tracksAdded @ [trackResult], tracksFailed, failureBreakdown, quotaUsed + 50)
               else (let failure =
                           \<lparr>failed_track = trackResult,
                            error = or_default (add_error result) ''Unknown error'',
                            errorType = or_default (add_errorType result) ''UNKNOWN''\<rparr>
                     in add_loop add playlistId rest (i + 1)
                          (tracksAdded, tracksFailed @ [failure],
                           count_failure failureBreakdown (errorType failure), quotaUsed))
           | Inl thrown \<Rightarrow>
               (let failure =
                      \<lparr>failed_track = trackResult,
                       error = ''Unexpected error: '' @ thrown,
                       errorType = ''UNEXPECTED_ERROR''\<rparr>
                in add_loop add playlistId rest (i + 1)
                     (tracksAdded, tracksFailed @ [failure],
                      count_failure failureBreakdown (errorType failure), quotaUsed))))"

text \<open>\<open>createPlaylistFromResults\<close>. \<open>envPlaylistName\<close> is
  \<open>process.env.YOUTUBE_PLAYLIST_NAME\<close>, empty when unset; the playlist description is a
  parameter.\<close>

definition createPlaylistFromResults ::
  "capabilities \<Rightarrow> string \<Rightarrow> string \<Rightarrow> SearchProgress \<Rightarrow>
   run_error + TrackFailure PlaylistCreationResult"
where
  "createPlaylistFromResults caps envPlaylistName description progress =
     (let tracksWithMatches = filter (\<lambda>r. youtube_video r \<noteq> None) (tracks progress) in
      if length tracksWithMatches = 0 then Inl NoMatchesFound
      else
        (let playlistCreationCost = 50 in
         case getAccessToken caps of
           Inl thrown \<Rightarrow> Inl (TokenFailed thrown)
         | Inr accessToken \<Rightarrow>
             (let playlistName =
                    (if envPlaylistName \<noteq> [] then envPlaylistName
                     else playlist_name (spotify_playlist progress) @ '' (from Spotify)'')
              in case createPlaylist caps playlistName description of
                   Inl e \<Rightarrow> Inl (CreatePlaylistFailed e)
                 | Inr youtubePlaylist \<Rightarrow>
                     (case add_loop (addVideoToPlaylist caps) (yt_playlist_id youtubePlaylist)
                             tracksWithMatches 0 ([], [], Map.empty, playlistCreationCost) of
                        Inl e \<Rightarrow> Inl e
                      | Inr (tracksAdded, tracksFailed, failureBreakdown, quotaUsed) \<Rightarrow>
                          Inr \<lparr>youtube_playlist = youtubePlaylist,
                               tracks_added = tracksAdded,
                               tracks_failed = tracksFailed,
                               quota_used = quotaUsed,
                               success_rate =
                                 rat_of_nat (length tracksAdded) /
                                 rat_of_nat (length tracksWithMatches),
                               failure_breakdown = failureBreakdown\<rparr>))))"

section \<open>Retry of failed tracks (retry-failed script)\<close>

text \<open>The loop of \<open>retryFailedTracks\<close>, on \<open>(newlyAdded, stillFailed, quotaUsed)\<close>. The
  failed tracks are read as the script declares them, as \<open>TrackSearchResult\<close> objects; as
  in the build, an entry without a video makes the logging before the \<open>try\<close> block
  throw.\<close>

fun retry_loop ::
  "(nat \<Rightarrow> string \<Rightarrow> string \<Rightarrow> string + AddResult) \<Rightarrow> string \<Rightarrow> TrackSearchResult list \<Rightarrow> nat \<Rightarrow>
   TrackSearchResult list \<times> TrackSearchResult list \<times> int \<Rightarrow>
   run_error + TrackSearchResult list \<times> TrackSearchResult list \<times> int"
where
  "retry_loop add playlistId [] i st = Inr st"
| "retry_loop add playlistId (trackResult # rest) i (newlyAdded, stillFailed, quotaUsed) =
     (case youtube_video trackResult of
        None \<Rightarrow> Inl VideoIsNull
      | Some video \<Rightarrow>
          (case add i playlistId (videoId video) of
             Inr result \<Rightarrow>
               if success result
               then retry_loop add playlistId rest (i + 1)
                      (newlyAdded @ [trackResult], stillFailed, quotaUsed + 50)
               else retry_loop add playlistId rest (i + 1)
                      (newlyAdded, stillFailed @ [trackResult], quotaUsed)
           | Inl thrown \<Rightarrow>
               retry_loop add playlistId rest (i + 1)
                 (newlyAdded, stillFailed @ [trackResult], quotaUsed)))"

definition retryFailedTracks ::
  "capabilities \<Rightarrow> string \<Rightarrow> TrackSearchResult list \<Rightarrow>
   run_error + TrackSearchResult list \<times> TrackSearchResult list \<times> int"
where
  "retryFailedTracks caps playlistId failedTracks =
     (case getAccessToken caps of
        Inl thrown \<Rightarrow> Inl (TokenFailed thrown)
      | Inr accessToken \<Rightarrow> retry_loop (addVideoToPlaylist caps) playlistId failedTracks 0 ([], [], 0))"

text \<open>The object literal \<open>updatedResult\<close> of \<open>main\<close>.\<close>

definition updatedResult ::
  "TrackSearchResult PlaylistCreationResult \<Rightarrow> TrackSearchResult list \<times> TrackSearchResult list \<times> int \<Rightarrow>
   TrackSearchResult PlaylistCreationResult"
where
  "updatedResult result retryResult =
     (case retryResult of
        (newlyAdded, stillFailed, quotaUsed) \<Rightarrow>
          \<lparr>youtube_playlist = youtube_playlist result,
           tracks_added = tracks_added result @ newlyAdded,
           tracks_failed = stillFailed,
           quota_used = quota_used result + quotaUsed,
           success_rate =
             rat_of_nat (length (tracks_added result) + length newlyAdded) /
             rat_of_nat (length (tracks_added result) + length (tracks_failed result)),
           failure_breakdown = Map.empty\<rparr>)"

text \<open>\<open>main\<close> of the retry script, from the loaded result to the result it saves. With no
  failed track it returns before anything is retried or saved.\<close>

definition retry ::
  "capabilities \<Rightarrow> TrackSearchResult PlaylistCreationResult \<Rightarrow>
   run_error + TrackSearchResult PlaylistCreationResult"
where
  "retry caps result =
     (if length (tracks_failed result) = 0 then Inl NoFailedTracks
      else (case retryFailedTracks caps (yt_playlist_id (youtube_playlist result))
                   (tracks_failed result) of
              Inl e \<Rightarrow> Inl e
            | Inr retryResult \<Rightarrow> Inr (updatedResult result retryResult)))"

section \<open>Notions used in the statements\<close>

text \<open>The position of the first occurrence of a value in a list (the length of the list
  when it does not occur).\<close>

definition first_index :: "'a list \<Rightarrow> 'a \<Rightarrow> nat" where
  "first_index xs x = length (takeWhile (\<lambda>y. y \<noteq> x) xs)"

text \<open>The number of failures of one error type in a list of failures.\<close>

definition failure_count :: "TrackFailure list \<Rightarrow> string \<Rightarrow> nat" where
  "failure_count failures k = length (filter (\<lambda>f. errorType f = k) failures)"

section \<open>Example data\<close>

text \<open>The names of the example tracks hold nothing that \<open>cleanTrackName\<close> removes, so
  the examples pass the identity for it.\<close>

definition example_track :: SpotifyTrack where
  "example_track =
     \<lparr>track_id = ''t1'', track_name = ''Song'',
      artists = [\<lparr>artist_id = ''a1'', artist_name = ''Artist''\<rparr>]\<rparr>"

definition official_video :: YouTubeVideo where
  "official_video =
     \<lparr>videoId = ''v1'', title = ''Artist - Song (Official Video)'', channelTitle = ''ArtistVEVO''\<rparr>"

definition cover_video :: YouTubeVideo where
  "cover_video =
     \<lparr>videoId = ''v2'', title = ''Random Coffee Shop Cover'', channelTitle = ''Coffee Shop''\<rparr>"

definition lyric_video :: YouTubeVideo where
  "lyric_video =
     \<lparr>videoId = ''v3'', title = ''Artist - Song (Official Audio)'', channelTitle = ''ArtistVEVO''\<rparr>"

definition example_playlist :: SpotifyPlaylist where
  "example_playlist =
     \<lparr>playlist_id = ''p1'', playlist_name = ''Mix'', playlist_total = 7,
      playlist_url = ''https://open.spotify.com/playlist/p1''\<rparr>"

definition solo_track :: SpotifyTrack where
  "solo_track = \<lparr>track_id = ''t2'', track_name = ''Song'', artists = []\<rparr>"

text \<open>Search capabilities for the examples: one that fails on the first query, one that
  finds only a cover for the first query and fails on the second, and one that always
  answers.\<close>

definition flaky_search :: search_api where
  "flaky_search query maxResults =
     (if query = ''Artist Song official''
      then Inl \<lparr>status = 503, message = ''YouTube API Error: Service Unavailable''\<rparr>
      else Inr [official_video])"

definition second_fails :: search_api where
  "second_fails query maxResults =
     (if query = ''Artist Song official'' then Inr [cover_video]
      else if query = ''Artist Song official audio''
      then Inl \<lparr>status = 503, message = ''YouTube API Error: Service Unavailable''\<rparr>
      else Inr [official_video])"

definition steady_search :: search_api where
  "steady_search query maxResults = Inr [official_video]"

text \<open>A playlist of seven tracks and a search that finds a video for most of them, finds
  nothing for the track \<open>t3\<close> and throws for the track \<open>t2\<close>.\<close>

definition unknown_track :: SpotifyTrack where
  "unknown_track =
     \<lparr>track_id = ''t3'', track_name = ''Obscure'',
      artists = [\<lparr>artist_id = ''a3'', artist_name = ''Nobody''\<rparr>]\<rparr>"

definition seven_tracks :: "SpotifyTrack list" where
  "seven_tracks =
     [example_track, solo_track, example_track, unknown_track, example_track, example_track,
      example_track]"

definition example_search :: "SpotifyTrack \<Rightarrow> string + YouTubeVideo option" where
  "example_search track =
     (if track_id track = ''t2'' then Inl ''timeout''
      else if track_id track = ''t3'' then Inr None
      else Inr (Some official_video))"

text \<open>A file system on which every write succeeds, and one on which only the first
  write fails.\<close>

definition every_write :: "nat \<Rightarrow> bool" where
  "every_write call = True"

definition first_write_fails :: "nat \<Rightarrow> bool" where
  "first_write_fails call = (call \<noteq> 0)"

text \<open>Search results, a progress record and capabilities for the build and retry
  examples. With \<open>strict_caps\<close> the video \<open>v3\<close> cannot be added; with \<open>lenient_caps\<close>
  every video can.\<close>

definition found_result :: TrackSearchResult where
  "found_result =
     \<lparr>spotify_track = example_track, youtube_video = Some official_video, confidence = 1,
      search_queries_tried = []\<rparr>"

definition second_result :: TrackSearchResult where
  "second_result =
     \<lparr>spotify_track = solo_track, youtube_video = Some lyric_video, confidence = 9 / 10,
      search_queries_tried = []\<rparr>"

definition missing_result :: TrackSearchResult where
  "missing_result =
     \<lparr>spotify_track = unknown_track, youtube_video = None, confidence = 0,
      search_queries_tried = []\<rparr>"

definition example_progress :: SearchProgress where
  "example_progress =
     \<lparr>spotify_playlist = example_playlist,
      tracks = [found_result, missing_result, second_result],
      tracks_processed = 3, tracks_found = 2, tracks_not_found = 1, batch_size = Num 50,
      current_batch_start = Num 3, total_quota_used = 300, searches_performed = 3\<rparr>"

definition strict_caps :: capabilities where
  "strict_caps =
     \<lparr>getAccessToken = Inr ''token'',
      createPlaylist = (\<lambda>name description. Inr \<lparr>yt_playlist_id = ''PL1'', yt_playlist_title = name\<rparr>),
      addVideoToPlaylist = (\<lambda>i playlistId video.
        if video = ''v3''
        then Inr \<lparr>success = False, add_error = Some ''Video not found or has been deleted'',
                  add_errorType = Some ''VIDEO_NOT_FOUND''\<rparr>
        else Inr \<lparr>success = True, add_error = None, add_errorType = None\<rparr>)\<rparr>"

definition lenient_caps :: capabilities where
  "lenient_caps =
     \<lparr>getAccessToken = Inr ''token'',
      createPlaylist = (\<lambda>name description. Inr \<lparr>yt_playlist_id = ''PL1'', yt_playlist_title = name\<rparr>),
      addVideoToPlaylist = (\<lambda>i playlistId video.
        Inr \<lparr>success = True, add_error = None, add_errorType = None\<rparr>)\<rparr>"

definition one_failed :: "TrackSearchResult PlaylistCreationResult" where
  "one_failed =
     \<lparr>youtube_playlist = \<lparr>yt_playlist_id = ''PL1'', yt_playlist_title = ''Mix (from Spotify)''\<rparr>,
      tracks_added = [found_result],
      tracks_failed = [second_result],
      quota_used = 100,
      success_rate = 1 / 2,
      failure_breakdown = [''VIDEO_NOT_FOUND'' \<mapsto> 1]\<rparr>"

section \<open>Properties of the match scorer\<close>

lemma best_loop_spec:
  assumes "best_loop track videos (b, s) = (b', s')"
  shows "(\<forall>v \<in> set videos. score track v \<le> s') \<and>
         ((s' = s \<and> b' = b) \<or>
          (s < s' \<and> (\<exists>i < length videos. b' = Some (videos ! i) \<and> score track (videos ! i) = s' \<and>
              (\<forall>j < i. score track (videos ! j) < s'))))"
  using assms
proof (induction videos arbitrary: b s)
  case Nil
  then show ?case by simp
next
  case (Cons v vs)
  show ?case
  proof (cases "score track v > s")
    case True
    with Cons.prems have run: "best_loop track vs (Some v, score track v) = (b', s')"
      by simp
    from Cons.IH [OF run]
    have bound: "\<forall>w \<in> set vs. score track w \<le> s'"
      and alt: "(s' = score track v \<and> b' = Some v) \<or>
          (score track v < s' \<and> (\<exists>i < length vs. b' = Some (vs ! i) \<and> score track (vs ! i) = s' \<and>
              (\<forall>j < i. score track (vs ! j) < s')))"
      by blast+
    from alt show ?thesis
    proof
      assume same: "s' = score track v \<and> b' = Some v"
      then have "\<exists>i < length (v # vs). b' = Some ((v # vs) ! i) \<and>
          score track ((v # vs) ! i) = s' \<and> (\<forall>j < i. score track ((v # vs) ! j) < s')"
        by (intro exI [of _ 0]) simp
      with same True bound show ?thesis by auto
    next
      assume later: "score track v < s' \<and> (\<exists>i < length vs. b' = Some (vs ! i) \<and>
          score track (vs ! i) = s' \<and> (\<forall>j < i. score track (vs ! j) < s'))"
      then obtain i where i: "i < length vs" "b' = Some (vs ! i)" "score track (vs ! i) = s'"
        "\<forall>j < i. score track (vs ! j) < s'"
        by blast
      have "\<forall>j < Suc i. score track ((v # vs) ! j) < s'"
      proof (intro allI impI)
        fix j assume "j < Suc i"
        then show "score track ((v # vs) ! j) < s'"
          using later i(4) by (cases j) auto
      qed
      with i have "\<exists>k < length (v # vs). b' = Some ((v # vs) ! k) \<and>
          score track ((v # vs) ! k) = s' \<and> (\<forall>j < k. score track ((v # vs) ! j) < s')"
        by (intro exI [of _ "Suc i"]) simp
      with later True bound show ?thesis by auto
    qed
  next
    case False
    with Cons.prems have run: "best_loop track vs (b, s) = (b', s')"
      by simp
    from Cons.IH [OF run]
    have bound: "\<forall>w \<in> set vs. score track w \<le> s'"
      and alt: "(s' = s \<and> b' = b) \<or>
          (s < s' \<and> (\<exists>i < length vs. b' = Some (vs ! i) \<and> score track (vs ! i) = s' \<and>
              (\<forall>j < i. score track (vs ! j) < s')))"
      by blast+
    from alt show ?thesis
    proof
      assume "s' = s \<and> b' = b"
      with False bound show ?thesis by auto
    next
      assume later: "s < s' \<and> (\<exists>i < length vs. b' = Some (vs ! i) \<and>
          score track (vs ! i) = s' \<and> (\<forall>j < i. score track (vs ! j) < s'))"
      then obtain i where i: "i < length vs" "b' = Some (vs ! i)" "score track (vs ! i) = s'"
        "\<forall>j < i. score track (vs ! j) < s'"
        by blast
      have "\<forall>j < Suc i. score track ((v # vs) ! j) < s'"
      proof (intro allI impI)
        fix j assume "j < Suc i"
        then show "score track ((v # vs) ! j) < s'"
          using later False i(4) by (cases j) auto
      qed
      with i have "\<exists>k < length (v # vs). b' = Some ((v # vs) ! k) \<and>
          score track ((v # vs) ! k) = s' \<and> (\<forall>j < k. score track ((v # vs) ! j) < s')"
        by (intro exI [of _ "Suc i"]) simp
      with later False bound show ?thesis by auto
    qed
  qed
qed


text \<open>
  C1. For a non-empty candidate list, \<open>findBestMatch\<close> returns a video exactly when that
  video is the first candidate that reaches the highest score of the list and this score
  is at least 2 (an equal score later in the list does not replace it); it returns nothing
  exactly when every candidate scores below 2.
\<close>

theorem findBestMatch_first_highest:
  assumes "videos \<noteq> []"
  shows "(findBestMatch track videos = Some v \<longleftrightarrow>
            (\<exists>i < length videos. videos ! i = v \<and> 2 \<le> score track v \<and>
               (\<forall>w \<in> set videos. score track w \<le> score track v) \<and>
               (\<forall>j < i. score track (videos ! j) < score track v))) \<and>
         (findBestMatch track videos = None \<longleftrightarrow> (\<forall>w \<in> set videos. score track w < 2))"
proof -
  obtain b s where run: "best_loop track videos (None, 0) = (b, s)"
    by (cases "best_loop track videos (None, 0)")
  from best_loop_spec [OF run]
  have bound: "\<forall>w \<in> set videos. score track w \<le> s"
    and alt: "(s = 0 \<and> b = None) \<or>
          (0 < s \<and> (\<exists>i < length videos. b = Some (videos ! i) \<and> score track (videos ! i) = s \<and>
              (\<forall>j < i. score track (videos ! j) < s)))"
    by blast+
  have res: "findBestMatch track videos = (if 2 \<le> s then b else None)"
    using assms run by (simp add: findBestMatch_def)
  have first: "findBestMatch track videos = Some v \<longleftrightarrow>
            (\<exists>i < length videos. videos ! i = v \<and> 2 \<le> score track v \<and>
               (\<forall>w \<in> set videos. score track w \<le> score track v) \<and>
               (\<forall>j < i. score track (videos ! j) < score track v))"
  proof
    assume "findBestMatch track videos = Some v"
    with res have s2: "2 \<le> s" and bv: "b = Some v"
      by (auto split: if_splits)
    with alt obtain i where i: "i < length videos" "b = Some (videos ! i)"
      "score track (videos ! i) = s" "\<forall>j < i. score track (videos ! j) < s"
      by auto
    with bv have "videos ! i = v" by simp
    with i s2 bound show "\<exists>i < length videos. videos ! i = v \<and> 2 \<le> score track v \<and>
               (\<forall>w \<in> set videos. score track w \<le> score track v) \<and>
               (\<forall>j < i. score track (videos ! j) < score track v)"
      by auto
  next
    assume "\<exists>i < length videos. videos ! i = v \<and> 2 \<le> score track v \<and>
               (\<forall>w \<in> set videos. score track w \<le> score track v) \<and>
               (\<forall>j < i. score track (videos ! j) < score track v)"
    then obtain i where i: "i < length videos" "videos ! i = v" "2 \<le> score track v"
      "\<forall>w \<in> set videos. score track w \<le> score track v"
      "\<forall>j < i. score track (videos ! j) < score track v"
      by blast
    from i(1,2) have vin: "v \<in> set videos" by auto
    with bound have vs: "score track v \<le> s" by blast
    with i(3) have s2: "2 \<le> s" by simp
    with alt obtain k where k: "k < length videos" "b = Some (videos ! k)"
      "score track (videos ! k) = s" "\<forall>j < k. score track (videos ! j) < s"
      by auto
    from k(1) have "videos ! k \<in> set videos" by simp
    with i(4) k(3) have "s \<le> score track v" by auto
    with vs have eq: "score track v = s" by simp
    have "k = i"
    proof (rule ccontr)
      assume "k \<noteq> i"
      then consider "k < i" | "i < k" by linarith
      then show False
      proof cases
        case 1
        with i(5) k(3) eq show False by auto
      next
        case 2
        with k(4) i(2) eq show False by auto
      qed
    qed
    with k(2) i(2) res s2 show "findBestMatch track videos = Some v" by simp
  qed
  have none: "findBestMatch track videos = None \<longleftrightarrow> (\<forall>w \<in> set videos. score track w < 2)"
  proof
    assume n: "findBestMatch track videos = None"
    have "s < 2"
    proof (rule ccontr)
      assume "\<not> s < 2"
      then have "2 \<le> s" by simp
      with alt res n show False by auto
    qed
    with bound show "\<forall>w \<in> set videos. score track w < 2" by fastforce
  next
    assume low: "\<forall>w \<in> set videos. score track w < 2"
    have "s < 2"
    proof (rule ccontr)
      assume "\<not> s < 2"
      then have s2: "2 \<le> s" by simp
      with alt obtain k where "k < length videos" "score track (videos ! k) = s"
        by auto
      with low s2 show False by (metis nth_mem not_less)
    qed
    with res show "findBestMatch track videos = None" by simp
  qed
  from first none show ?thesis by blast
qed

theorem findBestMatch_first_highest_witness:
  "[lyric_video, official_video, cover_video] \<noteq> [] \<and>
   findBestMatch example_track [lyric_video, official_video, cover_video] = Some lyric_video \<and>
   score example_track lyric_video = score example_track official_video \<and>
   (\<exists>i < length [lyric_video, official_video, cover_video].
      [lyric_video, official_video, cover_video] ! i = lyric_video \<and>
      2 \<le> score example_track lyric_video) \<and>
   findBestMatch example_track [cover_video] = None \<and>
   score example_track cover_video < 2"
proof -
  have ne: "[lyric_video, official_video, cover_video] \<noteq> []" by simp
  have found: "findBestMatch example_track [lyric_video, official_video, cover_video] = Some lyric_video"
    by code_simp
  have tie: "score example_track lyric_video = score example_track official_video"
    by code_simp
  have none: "findBestMatch example_track [cover_video] = None"
    by code_simp
  from findBestMatch_first_highest [OF ne, of example_track lyric_video] found
  have idx: "\<exists>i < length [lyric_video, official_video, cover_video].
      [lyric_video, official_video, cover_video] ! i = lyric_video \<and>
      2 \<le> score example_track lyric_video"
    by blast
  have "[cover_video] \<noteq> []" by simp
  from findBestMatch_first_highest [OF this, of example_track] none
  have "score example_track cover_video < 2" by simp
  with ne found tie idx none show ?thesis by blast
qed

section \<open>Properties of the confidence estimators\<close>

lemma clamp_unit: "0 \<le> max 0 (min 1 (c::rat)) \<and> max 0 (min 1 c) \<le> 1"
  by simp

text \<open>
  C6. Both confidence functions return a value in the closed interval from 0 to 1, for
  every track and every video.
\<close>

theorem confidence_in_unit_interval:
  "0 \<le> calculateMatchConfidence track video \<and> calculateMatchConfidence track video \<le> 1 \<and>
   0 \<le> calculateConfidence track video \<and> calculateConfidence track video \<le> 1"
proof -
  have penalised: "0 \<le> calculateMatchConfidence track video \<and> calculateMatchConfidence track video \<le> 1"
    unfolding calculateMatchConfidence_def Let_def by (rule clamp_unit)
  have plain: "0 \<le> calculateConfidence track video \<and> calculateConfidence track video \<le> 1"
    unfolding calculateConfidence_def Let_def by simp
  from penalised plain show ?thesis by simp
qed

theorem confidence_in_unit_interval_witness:
  "calculateMatchConfidence example_track official_video = 1 \<and>
   calculateMatchConfidence example_track cover_video = 3 / 10 \<and>
   calculateConfidence example_track official_video = 1 \<and>
   0 \<le> calculateMatchConfidence example_track cover_video \<and>
   calculateConfidence example_track official_video \<le> 1"
proof -
  have a: "calculateMatchConfidence example_track official_video = 1" by code_simp
  have b: "calculateMatchConfidence example_track cover_video = 3 / 10" by code_simp
  have c: "calculateConfidence example_track official_video = 1" by code_simp
  from confidence_in_unit_interval [of example_track cover_video]
  have d: "0 \<le> calculateMatchConfidence example_track cover_video" by simp
  from confidence_in_unit_interval [of example_track official_video]
  have e: "calculateConfidence example_track official_video \<le> 1" by simp
  from a b c d e show ?thesis by simp
qed

lemma calculateConfidence_bounds:
  "1 / 2 \<le> calculateConfidence track video \<and> calculateConfidence track video \<le> 1"
  unfolding calculateConfidence_def Let_def by simp

lemma match_batch_confidence:
  "m \<in> set (match_batch get clean batch) \<Longrightarrow>
     mapping_confidence m = calculateConfidence (mapping_track m) (mapping_video m)"
  by (auto simp: match_batch_def List.map_filter_def split: option.splits)

lemma findMatchesForTracks_confidence:
  "m \<in> set (findMatchesForTracks get clean trackList) \<Longrightarrow>
     mapping_confidence m = calculateConfidence (mapping_track m) (mapping_video m)"
proof (induction get clean trackList rule: findMatchesForTracks.induct)
  case (1 get clean)
  then show ?case by simp
next
  case (2 get clean t ts)
  from "2.prems" have "m \<in> set (match_batch get clean (take 3 (t # ts))) \<or>
      m \<in> set (findMatchesForTracks get clean (drop 3 (t # ts)))"
    by (simp del: take_Suc_Cons)
  then show ?case
    using "2.IH" match_batch_confidence by blast
qed

text \<open>
  C10. \<open>YouTubeService.calculateConfidence\<close> only adds to its base value: its result is
  never below 1/2 and never above 1, whatever the title contains, and so is the confidence
  of every mapping that \<open>findMatchesForTracks\<close> returns.
\<close>

theorem calculateConfidence_at_least_base:
  "1 / 2 \<le> calculateConfidence track video \<and> calculateConfidence track video \<le> 1 \<and>
   (\<forall>m \<in> set (findMatchesForTracks get clean trackList).
      1 / 2 \<le> mapping_confidence m \<and> mapping_confidence m \<le> 1)"
  using calculateConfidence_bounds findMatchesForTracks_confidence by metis

theorem calculateConfidence_at_least_base_witness:
  "js_includes (toLowerCase (title cover_video)) ''cover'' \<and>
   calculateConfidence example_track cover_video = 1 / 2 \<and>
   1 / 2 \<le> calculateConfidence example_track cover_video \<and>
   map mapping_confidence
     (findMatchesForTracks steady_search (\<lambda>s. s) [example_track, unknown_track]) = [1, 3 / 5] \<and>
   list_all (\<lambda>m. 1 / 2 \<le> mapping_confidence m)
     (findMatchesForTracks steady_search (\<lambda>s. s) [example_track, unknown_track])"
proof -
  have a: "js_includes (toLowerCase (title cover_video)) ''cover''" by code_simp
  have b: "calculateConfidence example_track cover_video = 1 / 2" by code_simp
  have c: "map mapping_confidence
     (findMatchesForTracks steady_search (\<lambda>s. s) [example_track, unknown_track]) = [1, 3 / 5]"
    by code_simp
  from calculateConfidence_at_least_base
         [of example_track cover_video steady_search "\<lambda>s. s" "[example_track, unknown_track]"]
  have "1 / 2 \<le> calculateConfidence example_track cover_video"
    and "list_all (\<lambda>m. 1 / 2 \<le> mapping_confidence m)
     (findMatchesForTracks steady_search (\<lambda>s. s) [example_track, unknown_track])"
    by (simp_all add: list_all_iff)
  with a b c show ?thesis by simp
qed

section \<open>Properties of the query generator\<close>

lemma set_values_snoc: "set_values (xs @ [x]) = set_add (set_values xs) x"
  by (simp add: set_values_def)

lemma set_set_values: "set (set_values xs) = set xs"
  by (induction xs rule: rev_induct) (auto simp: set_values_snoc set_add_def set_values_def)

lemma distinct_set_values: "distinct (set_values xs)"
  by (induction xs rule: rev_induct) (auto simp: set_values_snoc set_add_def set_values_def)

lemma first_index_append:
  "a \<in> set xs \<Longrightarrow> first_index (xs @ ys) a = first_index xs a"
  by (simp add: first_index_def)

lemma first_index_less: "a \<in> set xs \<Longrightarrow> first_index xs a < length xs"
  unfolding first_index_def by (induction xs) auto

lemma first_index_fresh: "x \<notin> set xs \<Longrightarrow> first_index (xs @ [x]) x = length xs"
  unfolding first_index_def by (induction xs) auto

lemma set_values_first_order:
  "sorted_wrt (\<lambda>a b. first_index xs a < first_index xs b) (set_values xs)"
proof (induction xs rule: rev_induct)
  case Nil
  then show ?case by (simp add: set_values_def)
next
  case (snoc x xs)
  have old: "sorted_wrt (\<lambda>a b. first_index (xs @ [x]) a < first_index (xs @ [x]) b) (set_values xs)"
  proof (rule sorted_wrt_mono_rel [OF _ snoc.IH])
    fix a b
    assume "a \<in> set (set_values xs)" "b \<in> set (set_values xs)"
      "first_index xs a < first_index xs b"
    then show "first_index (xs @ [x]) a < first_index (xs @ [x]) b"
      by (simp add: set_set_values first_index_append)
  qed
  show ?case
  proof (cases "x \<in> set xs")
    case True
    with old show ?thesis
      by (simp add: set_values_snoc set_add_def set_set_values)
  next
    case False
    have "\<forall>a \<in> set (set_values xs). first_index (xs @ [x]) a < first_index (xs @ [x]) x"
      using False by (simp add: set_set_values first_index_append first_index_fresh first_index_less)
    with old False show ?thesis
      by (simp add: set_values_snoc set_add_def set_set_values sorted_wrt_append)
  qed
qed

lemma dropWhile_keeps: "x \<in> set xs \<Longrightarrow> \<not> P x \<Longrightarrow> x \<in> set (dropWhile P xs)"
  by (induction xs) auto

lemma trim_empty_iff: "trim s = [] \<longleftrightarrow> (\<forall>c \<in> set s. is_whitespace c)"
proof
  assume e: "trim s = []"
  show "\<forall>c \<in> set s. is_whitespace c"
  proof (rule ccontr)
    assume "\<not> (\<forall>c \<in> set s. is_whitespace c)"
    then obtain c where c: "c \<in> set s" "\<not> is_whitespace c" by blast
    then have "c \<in> set (dropWhile is_whitespace s)" by (rule dropWhile_keeps)
    then have "c \<in> set (rev (dropWhile is_whitespace s))" by simp
    with c(2) have "c \<in> set (dropWhile is_whitespace (rev (dropWhile is_whitespace s)))"
      using dropWhile_keeps [of c "rev (dropWhile is_whitespace s)" is_whitespace] by blast
    then have "c \<in> set (trim s)" by (simp add: trim_def)
    with e show False by simp
  qed
next
  assume "\<forall>c \<in> set s. is_whitespace c"
  then have d: "dropWhile is_whitespace s = []" by simp
  show "trim s = []" unfolding trim_def d by simp
qed

lemma official_not_blank: "\<not> (\<forall>c \<in> set (a @ '' '' @ b @ '' official''). is_whitespace c)"
proof -
  have "CHR ''o'' \<in> set (a @ '' '' @ b @ '' official'')" by simp
  moreover have "\<not> is_whitespace CHR ''o''" by (simp add: is_whitespace_def)
  ultimately show ?thesis by blast
qed

text \<open>
  C7. The query list is never empty, holds no string twice and no string that is empty or
  consists of whitespace only. It holds exactly the candidate queries that are not blank,
  each at the place of its first occurrence among the candidates, and its first entry is
  the most specific query. The queries are built with the primary artist: the name of the
  first artist of the track, or the empty string when the track has no artist.
\<close>

theorem generateSearchQueries_shape:
  "generateSearchQueries clean track \<noteq> [] \<and>
   distinct (generateSearchQueries clean track) \<and>
   (\<forall>q \<in> set (generateSearchQueries clean track). q \<noteq> [] \<and> (\<exists>c \<in> set q. \<not> is_whitespace c)) \<and>
   set (generateSearchQueries clean track) =
     {q \<in> set (query_candidates clean track). \<exists>c \<in> set q. \<not> is_whitespace c} \<and>
   sorted_wrt (\<lambda>a b. first_index (query_candidates clean track) a
                     < first_index (query_candidates clean track) b)
     (generateSearchQueries clean track) \<and>
   hd (generateSearchQueries clean track) =
     primaryArtist track @ '' '' @ clean (track_name track) @ '' official'' \<and>
   primaryArtist track = (if artists track = [] then [] else artist_name (hd (artists track)))"
proof -
  let ?qs = "query_candidates clean track"
  let ?r = "generateSearchQueries clean track"
  let ?first = "primaryArtist track @ '' '' @ clean (track_name track) @ '' official''"
  have keep: "\<And>q. (trim q \<noteq> []) = (\<exists>c \<in> set q. \<not> is_whitespace c)"
    using trim_empty_iff by auto
  have r_def: "?r = filter (\<lambda>q. \<exists>c \<in> set q. \<not> is_whitespace c) (set_values ?qs)"
    by (simp add: generateSearchQueries_def keep)
  have members: "set ?r = {q \<in> set ?qs. \<exists>c \<in> set q. \<not> is_whitespace c}"
    by (auto simp: r_def set_set_values)
  have dist: "distinct ?r"
    by (simp add: r_def distinct_set_values)
  have nonblank: "\<forall>q \<in> set ?r. q \<noteq> [] \<and> (\<exists>c \<in> set q. \<not> is_whitespace c)"
    using members by auto
  have order: "sorted_wrt (\<lambda>a b. first_index ?qs a < first_index ?qs b) ?r"
    unfolding r_def by (rule sorted_wrt_filter) (rule set_values_first_order)
  have qs_hd: "\<exists>rest. ?qs = ?first # rest"
    by (simp add: query_candidates_def Let_def)
  then obtain rest where qs: "?qs = ?first # rest" by blast
  have sv: "\<exists>more. set_values (?first # rest) = ?first # more"
  proof (induction rest rule: rev_induct)
    case Nil
    then show ?case by (simp add: set_values_def set_add_def)
  next
    case (snoc x xs)
    then obtain more where m: "set_values (?first # xs) = ?first # more" by blast
    have "set_values (?first # xs @ [x]) = set_add (set_values (?first # xs)) x"
      using set_values_snoc [of "?first # xs" x] by simp
    with m show ?case by (simp add: set_add_def)
  qed
  then obtain more where more: "set_values ?qs = ?first # more"
    using qs by auto
  have first_kept: "\<exists>c \<in> set ?first. \<not> is_whitespace c"
    using official_not_blank [of "primaryArtist track" "clean (track_name track)"] by blast
  have hd_r: "?r = ?first # filter (\<lambda>q. \<exists>c \<in> set q. \<not> is_whitespace c) more"
    using first_kept by (simp only: r_def more filter.simps if_True)
  then have ne: "?r \<noteq> []" and hd: "hd ?r = ?first"
    by simp_all
  have artist: "primaryArtist track = (if artists track = [] then [] else artist_name (hd (artists track)))"
    by (simp add: primaryArtist_def split: list.split)
  from ne dist nonblank members order hd artist show ?thesis by blast
qed


theorem generateSearchQueries_shape_witness:
  "generateSearchQueries (\<lambda>s. s) example_track =
     [''Artist Song official'', ''Artist Song official audio'', ''Artist Song official video'',
      ''Artist Song'', ''Song Artist'',
      CHR 0x22 # ''Artist'' @ CHR 0x22 # CHR '' '' # CHR 0x22 # ''Song'' @ [CHR 0x22]] \<and>
   distinct (generateSearchQueries (\<lambda>s. s) example_track) \<and>
   primaryArtist solo_track = [] \<and>
   hd (generateSearchQueries (\<lambda>s. s) solo_track) = '' Song official''"
proof -
  have v: "generateSearchQueries (\<lambda>s. s) example_track =
     [''Artist Song official'', ''Artist Song official audio'', ''Artist Song official video'',
      ''Artist Song'', ''Song Artist'',
      CHR 0x22 # ''Artist'' @ CHR 0x22 # CHR '' '' # CHR 0x22 # ''Song'' @ [CHR 0x22]]"
    by code_simp
  have d: "distinct (generateSearchQueries (\<lambda>s. s) example_track)"
    using generateSearchQueries_shape [of "\<lambda>s. s" example_track] by blast
  have a: "primaryArtist solo_track = []"
    by (simp add: primaryArtist_def solo_track_def)
  have "hd (generateSearchQueries (\<lambda>s. s) solo_track) =
     primaryArtist solo_track @ '' '' @ track_name solo_track @ '' official''"
    using generateSearchQueries_shape [of "\<lambda>s. s" solo_track] by blast
  with a have h: "hd (generateSearchQueries (\<lambda>s. s) solo_track) = '' Song official''"
    by (simp add: solo_track_def)
  from v d a h show ?thesis by blast
qed

section \<open>Properties of the search orchestrator\<close>

lemma guarded_findBestMatch:
  "(if length videos > 0 then findBestMatch track videos else None) = findBestMatch track videos"
  by (simp add: findBestMatch_def)

lemma query_loop_step:
  "query_loop get track (q # qs) =
     (case get q 5 of
        Inl e \<Rightarrow> (Inl (createApiError e), [q])
      | Inr videos \<Rightarrow>
          (case findBestMatch track videos of
             Some v \<Rightarrow> (Inr (Some v), [q])
           | None \<Rightarrow> (case query_loop get track qs of (r, issued) \<Rightarrow> (r, q # issued))))"
proof (cases "get q 5")
  case (Inl e)
  then show ?thesis by (simp add: searchVideos_def)
next
  case (Inr videos)
  then show ?thesis
    by (simp only: query_loop.simps searchVideos_def guarded_findBestMatch sum.case)
qed

lemma query_loop_skip:
  assumes "\<forall>p \<in> set pre. \<exists>videos. get p 5 = Inr videos \<and> findBestMatch track videos = None"
  shows "query_loop get track (pre @ qs) =
           (case query_loop get track qs of (r, issued) \<Rightarrow> (r, pre @ issued))"
  using assms
proof (induction pre)
  case Nil
  then show ?case by (simp split: prod.split)
next
  case (Cons p pre)
  then obtain videos where "get p 5 = Inr videos" "findBestMatch track videos = None"
    by auto
  with Cons show ?case
    by (simp only: append_Cons query_loop_step) (simp split: prod.split)
qed

text \<open>
  C2, as amended. Let the queries before \<open>q\<close> all return no usable candidate. If the
  search for \<open>q\<close> fails, resolution of the track ends there without a video and no later
  query is issued; if it returns an accepted match, resolution ends there with that match;
  if it returns no usable candidate and \<open>q\<close> is the last query, resolution ends without a
  video after every query was issued.
\<close>

theorem searchVideo_failure_ends_resolution:
  assumes "generateSearchQueries clean track = pre @ q # rest"
    and "\<forall>p \<in> set pre. \<exists>videos. get p 5 = Inr videos \<and> findBestMatch track videos = None"
  shows "(\<forall>e. get q 5 = Inl e \<longrightarrow>
            searchVideo_issued get clean track = (None, pre @ [q])) \<and>
         (\<forall>videos v. get q 5 = Inr videos \<and> findBestMatch track videos = Some v \<longrightarrow>
            searchVideo_issued get clean track = (Some v, pre @ [q])) \<and>
         (\<forall>videos. get q 5 = Inr videos \<and> findBestMatch track videos = None \<and> rest = [] \<longrightarrow>
            searchVideo_issued get clean track = (None, pre @ [q]))"
proof -
  have loop: "query_loop get track (pre @ q # rest) =
      (case query_loop get track (q # rest) of (r, issued) \<Rightarrow> (r, pre @ issued))"
    using assms(2) by (rule query_loop_skip)
  have failure: "searchVideo_issued get clean track = (None, pre @ [q])" if "get q 5 = Inl e" for e
    using that by (simp add: searchVideo_issued_def assms(1) loop query_loop_step del: query_loop.simps)
  have match: "searchVideo_issued get clean track = (Some v, pre @ [q])"
    if "get q 5 = Inr videos" "findBestMatch track videos = Some v" for videos v
    using that by (simp add: searchVideo_issued_def assms(1) loop query_loop_step del: query_loop.simps)
  have exhausted: "searchVideo_issued get clean track = (None, pre @ [q])"
    if "get q 5 = Inr videos" "findBestMatch track videos = None" "rest = []" for videos
  proof -
    have "query_loop get track (q # rest) = (Inr None, [q])"
      using that by (simp add: query_loop_step del: query_loop.simps(2))
    then show ?thesis
      by (simp add: searchVideo_issued_def assms(1) loop del: query_loop.simps)
  qed
  from failure match exhausted show ?thesis by blast
qed

theorem searchVideo_failure_ends_resolution_witness:
  "generateSearchQueries (\<lambda>s. s) example_track =
     [''Artist Song official''] @ ''Artist Song official audio'' #
       [''Artist Song official video'', ''Artist Song'', ''Song Artist'',
        CHR 0x22 # ''Artist'' @ CHR 0x22 # CHR '' '' # CHR 0x22 # ''Song'' @ [CHR 0x22]] \<and>
   second_fails ''Artist Song official'' 5 = Inr [cover_video] \<and>
   findBestMatch example_track [cover_video] = None \<and>
   second_fails ''Artist Song official audio'' 5 =
     Inl \<lparr>status = 503, message = ''YouTube API Error: Service Unavailable''\<rparr> \<and>
   searchVideo_issued second_fails (\<lambda>s. s) example_track =
     (None, [''Artist Song official''] @ [''Artist Song official audio''])"
proof -
  have qs: "generateSearchQueries (\<lambda>s. s) example_track =
     [''Artist Song official''] @ ''Artist Song official audio'' #
       [''Artist Song official video'', ''Artist Song'', ''Song Artist'',
        CHR 0x22 # ''Artist'' @ CHR 0x22 # CHR '' '' # CHR 0x22 # ''Song'' @ [CHR 0x22]]"
    by code_simp
  have first: "second_fails ''Artist Song official'' 5 = Inr [cover_video]"
    by (simp add: second_fails_def)
  have nomatch: "findBestMatch example_track [cover_video] = None"
    by code_simp
  have second: "second_fails ''Artist Song official audio'' 5 =
     Inl \<lparr>status = 503, message = ''YouTube API Error: Service Unavailable''\<rparr>"
    by (simp add: second_fails_def)
  have pre: "\<forall>p \<in> set [''Artist Song official''].
      \<exists>videos. second_fails p 5 = Inr videos \<and> findBestMatch example_track videos = None"
    using first nomatch by simp
  from searchVideo_failure_ends_resolution
         [of "\<lambda>s. s" example_track "[''Artist Song official'']" "''Artist Song official audio''" _
             second_fails, OF qs pre] second
  have "searchVideo_issued second_fails (\<lambda>s. s) example_track =
     (None, [''Artist Song official''] @ [''Artist Song official audio''])"
    by blast
  with qs first nomatch second show ?thesis by blast
qed

text \<open>
  C2 as stated fails: when the first query fails, the track ends without a video after that
  one query, although the same track is matched as soon as the failure is replaced by an
  empty answer.
\<close>

theorem searchVideo_failure_counterexample:
  "searchVideo_issued flaky_search (\<lambda>s. s) example_track = (None, [''Artist Song official'']) \<and>
   searchVideo flaky_search (\<lambda>s. s) example_track = None \<and>
   searchVideo (failure_as_no_candidates flaky_search) (\<lambda>s. s) example_track = Some official_video"
proof -
  have a: "searchVideo_issued flaky_search (\<lambda>s. s) example_track = (None, [''Artist Song official''])"
    by code_simp
  have b: "searchVideo flaky_search (\<lambda>s. s) example_track = None"
    by code_simp
  have c: "searchVideo (failure_as_no_candidates flaky_search) (\<lambda>s. s) example_track = Some official_video"
    by code_simp
  from a b c show ?thesis by blast
qed

section \<open>Properties of the progress state machine\<close>

lemma js_slice_length:
  "0 \<le> a \<Longrightarrow> a \<le> b \<Longrightarrow> b \<le> int (length xs) \<Longrightarrow> int (length (js_slice xs a b)) = b - a"
  by (auto simp: js_slice_def Let_def)

lemma cursor_invariant_to_json: "cursor_invariant (to_json p) = cursor_invariant p"
  by (cases "current_batch_start p") (auto simp: cursor_invariant_def to_json_def json_number_def)

lemma tracks_processed_to_json: "tracks_processed (to_json p) = tracks_processed p"
  by (simp add: to_json_def)

lemma loop_body_tracks:
  "take (length (tracks p)) (tracks (fst (loop_body writes search startIndex t i (p, disk)))) =
     tracks p \<and>
   length (tracks p) < length (tracks (fst (loop_body writes search startIndex t i (p, disk)))) \<and>
   (\<forall>r \<in> set (drop (length (tracks p))
                 (tracks (fst (loop_body writes search startIndex t i (p, disk))))).
      spotify_track r = t \<and> search_queries_tried r = []) \<and>
   ((\<forall>call. writes call) \<longrightarrow>
      length (tracks (fst (loop_body writes search startIndex t i (p, disk)))) =
      Suc (length (tracks p)))"
  by (cases disk)
    (auto simp: loop_body_def Let_def saveProgress_def catch_block_def
          split: sum.splits option.splits)


lemma batch_loop_tracks:
  "\<exists>new. tracks (fst (batch_loop writes search startIndex batch i (p, disk))) = tracks p @ new \<and>
     (\<forall>r \<in> set new. search_queries_tried r = []) \<and>
     set (map spotify_track new) = set batch \<and>
     ((\<forall>call. writes call) \<longrightarrow> map spotify_track new = batch)"
proof (induction batch arbitrary: p disk i)
  case Nil
  then show ?case by simp
next
  case (Cons t rest)
  obtain p1 disk1 where body: "loop_body writes search startIndex t i (p, disk) = (p1, disk1)"
    by (cases "loop_body writes search startIndex t i (p, disk)")
  define rs where "rs = drop (length (tracks p)) (tracks p1)"
  from loop_body_tracks [of p writes search startIndex t i disk] body
  have pre: "take (length (tracks p)) (tracks p1) = tracks p"
    and longer: "length (tracks p) < length (tracks p1)"
    and each: "\<forall>r \<in> set rs. spotify_track r = t \<and> search_queries_tried r = []"
    and one: "(\<forall>call. writes call) \<longrightarrow> length (tracks p1) = Suc (length (tracks p))"
    by (simp_all add: rs_def)
  have p1: "tracks p1 = tracks p @ rs"
    using pre append_take_drop_id [of "length (tracks p)" "tracks p1"] by (simp add: rs_def)
  from longer have ne: "rs \<noteq> []" by (simp add: rs_def)
  with each have tset: "set (map spotify_track rs) = {t}" by (cases rs) auto
  have single: "map spotify_track rs = [t]" if "\<forall>call. writes call"
  proof -
    from that one p1 have "length rs = 1" by simp
    then obtain r where "rs = [r]" by (cases rs) auto
    with each show ?thesis by simp
  qed
  from Cons.IH [of "i + 1" p1 disk1]
  obtain new where new:
    "tracks (fst (batch_loop writes search startIndex rest (i + 1) (p1, disk1))) = tracks p1 @ new"
    "\<forall>r \<in> set new. search_queries_tried r = []"
    "set (map spotify_track new) = set rest"
    "(\<forall>call. writes call) \<longrightarrow> map spotify_track new = rest"
    by blast
  have a: "tracks (fst (batch_loop writes search startIndex (t # rest) i (p, disk))) =
      tracks p @ (rs @ new)"
    using new(1) p1 body by simp
  have b: "\<forall>r \<in> set (rs @ new). search_queries_tried r = []"
    using each new(2) by auto
  have c: "set (map spotify_track (rs @ new)) = set (t # rest)"
    using tset new(3) by simp
  have d: "(\<forall>call. writes call) \<longrightarrow> map spotify_track (rs @ new) = t # rest"
    using single new(4) by simp
  from a b c d
  have "tracks (fst (batch_loop writes search startIndex (t # rest) i (p, disk))) =
      tracks p @ (rs @ new) \<and>
     (\<forall>r \<in> set (rs @ new). search_queries_tried r = []) \<and>
     set (map spotify_track (rs @ new)) = set (t # rest) \<and>
     ((\<forall>call. writes call) \<longrightarrow> map spotify_track (rs @ new) = t # rest)"
    by (intro conjI)
  then show ?case by (rule exI)
qed

text \<open>
  C8, as amended. Every result that \<open>searchTrackBatch\<close> appends records an empty
  \<open>search_queries_tried\<close>, whatever the search for the track issued. The results appended
  are results for the tracks of the batch, and when no write of the progress file fails
  there is one per track, in order.
\<close>

theorem search_queries_tried_always_empty:
  "\<exists>new.
     tracks (fst (searchTrackBatch writes search allTracks startIndex batchSize (p, disk))) =
       tracks p @ new \<and>
     (\<forall>r \<in> set new. search_queries_tried r = []) \<and>
     set (map spotify_track new) =
       set (js_slice allTracks (to_integer startIndex)
              (to_integer (math_min (num_add startIndex batchSize) (int (length allTracks))))) \<and>
     ((\<forall>call. writes call) \<longrightarrow>
        map spotify_track new =
          js_slice allTracks (to_integer startIndex)
            (to_integer (math_min (num_add startIndex batchSize) (int (length allTracks)))))"
proof -
  let ?batch = "js_slice allTracks (to_integer startIndex)
      (to_integer (math_min (num_add startIndex batchSize) (int (length allTracks))))"
  obtain q disk1 where run: "batch_loop writes search startIndex ?batch 0 (p, disk) = (q, disk1)"
    by (cases "batch_loop writes search startIndex ?batch 0 (p, disk)")
  from batch_loop_tracks [of writes search startIndex ?batch 0 p disk] run
  obtain new where new: "tracks q = tracks p @ new"
    "\<forall>r \<in> set new. search_queries_tried r = []"
    "set (map spotify_track new) = set ?batch"
    "(\<forall>call. writes call) \<longrightarrow> map spotify_track new = ?batch"
    by auto
  have "tracks (fst (searchTrackBatch writes search allTracks startIndex batchSize (p, disk))) =
      tracks q"
    by (simp add: searchTrackBatch_def Let_def run split: prod.split)
  with new
  have "tracks (fst (searchTrackBatch writes search allTracks startIndex batchSize (p, disk))) =
       tracks p @ new \<and>
     (\<forall>r \<in> set new. search_queries_tried r = []) \<and>
     set (map spotify_track new) = set ?batch \<and>
     ((\<forall>call. writes call) \<longrightarrow> map spotify_track new = ?batch)"
    by simp
  then show ?thesis by (rule exI)
qed

theorem search_queries_tried_always_empty_witness:
  "map search_queries_tried
     (tracks (fst (searchTrackBatch every_write example_search seven_tracks (Num 0) (Num 3)
        (loadOrCreateProgress None example_playlist (Num 50), ([], 0))))) = [[], [], []] \<and>
   (\<exists>new. tracks (fst (searchTrackBatch every_write example_search seven_tracks (Num 0) (Num 3)
        (loadOrCreateProgress None example_playlist (Num 50), ([], 0)))) = new \<and>
      map spotify_track new = [example_track, solo_track, example_track])"
proof -
  have a: "map search_queries_tried
     (tracks (fst (searchTrackBatch every_write example_search seven_tracks (Num 0) (Num 3)
        (loadOrCreateProgress None example_playlist (Num 50), ([], 0))))) = [[], [], []]"
    by code_simp
  have e: "tracks (loadOrCreateProgress None example_playlist (Num 50)) = []"
    by (simp add: loadOrCreateProgress_def)
  have w: "\<forall>call. every_write call"
    by (simp add: every_write_def)
  have b: "js_slice seven_tracks (to_integer (Num 0))
      (to_integer (math_min (num_add (Num 0) (Num 3)) (int (length seven_tracks)))) =
      [example_track, solo_track, example_track]"
    by code_simp
  from search_queries_tried_always_empty
         [of every_write example_search seven_tracks "Num 0" "Num 3"
             "loadOrCreateProgress None example_playlist (Num 50)" "([], 0)"]
  have "\<exists>new. tracks (fst (searchTrackBatch every_write example_search seven_tracks (Num 0) (Num 3)
        (loadOrCreateProgress None example_playlist (Num 50), ([], 0)))) = new \<and>
      map spotify_track new = [example_track, solo_track, example_track]"
    unfolding e b using w by auto
  with a show ?thesis by blast
qed

text \<open>
  C8 as stated fails: the search for the example track issues the query
  \<open>Artist Song official\<close> and finds the video, and the result recorded for the track lists
  no query.
\<close>

theorem search_queries_tried_counterexample:
  "searchVideo_issued steady_search (\<lambda>s. s) example_track =
     (Some official_video, [''Artist Song official'']) \<and>
   map youtube_video
     (tracks (fst (searchTrackBatch every_write (youtube_search steady_search (\<lambda>s. s))
        [example_track] (Num 0) (Num 1)
        (loadOrCreateProgress None example_playlist (Num 50), ([], 0))))) = [Some official_video] \<and>
   map search_queries_tried
     (tracks (fst (searchTrackBatch every_write (youtube_search steady_search (\<lambda>s. s))
        [example_track] (Num 0) (Num 1)
        (loadOrCreateProgress None example_playlist (Num 50), ([], 0))))) = [[]]"
proof -
  have a: "searchVideo_issued steady_search (\<lambda>s. s) example_track =
     (Some official_video, [''Artist Song official''])"
    by code_simp
  have b: "map youtube_video
     (tracks (fst (searchTrackBatch every_write (youtube_search steady_search (\<lambda>s. s))
        [example_track] (Num 0) (Num 1)
        (loadOrCreateProgress None example_playlist (Num 50), ([], 0))))) = [Some official_video]"
    by code_simp
  have c: "map search_queries_tried
     (tracks (fst (searchTrackBatch every_write (youtube_search steady_search (\<lambda>s. s))
        [example_track] (Num 0) (Num 1)
        (loadOrCreateProgress None example_playlist (Num 50), ([], 0))))) = [[]]"
    by code_simp
  from a b c show ?thesis by blast
qed

lemma loop_body_invariant:
  assumes "\<forall>call. writes call"
    and "tracks_processed p = int (length (tracks p))"
    and "tracks_found p + tracks_not_found p = tracks_processed p"
    and "tracks_processed p = s + i"
    and "\<forall>r \<in> set (fst disk). cursor_invariant r \<and> tracks_processed r \<le> bound"
    and "s + i + 1 \<le> bound"
  shows "\<exists>p1 disk1.
      loop_body writes search (Num s) t i (p, disk) = (p1, disk1) \<and>
      tracks_processed p1 = int (length (tracks p1)) \<and>
      tracks_found p1 + tracks_not_found p1 = tracks_processed p1 \<and>
      tracks_processed p1 = s + (i + 1) \<and>
      (\<forall>r \<in> set (fst disk1). cursor_invariant r \<and> tracks_processed r \<le> bound)"
proof -
  obtain p1 disk1 where body: "loop_body writes search (Num s) t i (p, disk) = (p1, disk1)"
    by (cases "loop_body writes search (Num s) t i (p, disk)")
  obtain saved calls where disk: "disk = (saved, calls)"
    by (cases disk)
  from assms body disk
  have "tracks_processed p1 = int (length (tracks p1)) \<and>
      tracks_found p1 + tracks_not_found p1 = tracks_processed p1 \<and>
      tracks_processed p1 = s + (i + 1) \<and>
      (\<forall>r \<in> set (fst disk1). cursor_invariant r \<and> tracks_processed r \<le> bound)"
    by (auto simp: loop_body_def Let_def saveProgress_def catch_block_def num_add_def
          to_number_def multiple_of_5_def cursor_invariant_def to_json_def json_number_def
          split: sum.splits option.splits if_splits)
  with body show ?thesis by blast
qed

lemma batch_loop_invariant:
  assumes "\<forall>call. writes call"
    and "tracks_processed p = int (length (tracks p))"
    and "tracks_found p + tracks_not_found p = tracks_processed p"
    and "tracks_processed p = s + i"
    and "\<forall>r \<in> set (fst disk). cursor_invariant r \<and> tracks_processed r \<le> bound"
    and "s + i + int (length batch) \<le> bound"
  shows "\<exists>p' disk'.
      batch_loop writes search (Num s) batch i (p, disk) = (p', disk') \<and>
      tracks_processed p' = int (length (tracks p')) \<and>
      tracks_found p' + tracks_not_found p' = tracks_processed p' \<and>
      tracks_processed p' = s + i + int (length batch) \<and>
      (\<forall>r \<in> set (fst disk'). cursor_invariant r \<and> tracks_processed r \<le> bound)"
  using assms(2-6)
proof (induction batch arbitrary: p disk i)
  case Nil
  then show ?case by simp
next
  case (Cons t rest)
  from Cons.prems(5) have room: "s + i + 1 \<le> bound" by simp
  from loop_body_invariant [OF assms(1) Cons.prems(1-4) room, of search t]
  obtain p1 disk1 where
    body: "loop_body writes search (Num s) t i (p, disk) = (p1, disk1)"
    and p1: "tracks_processed p1 = int (length (tracks p1))"
      "tracks_found p1 + tracks_not_found p1 = tracks_processed p1"
      "tracks_processed p1 = s + (i + 1)"
      "\<forall>r \<in> set (fst disk1). cursor_invariant r \<and> tracks_processed r \<le> bound"
    by blast
  from Cons.prems(5) have "s + (i + 1) + int (length rest) \<le> bound" by simp
  from Cons.IH [OF p1 this]
  obtain p' disk' where
    "batch_loop writes search (Num s) rest (i + 1) (p1, disk1) = (p', disk')"
    "tracks_processed p' = int (length (tracks p'))"
    "tracks_found p' + tracks_not_found p' = tracks_processed p'"
    "tracks_processed p' = s + (i + 1) + int (length rest)"
    "\<forall>r \<in> set (fst disk'). cursor_invariant r \<and> tracks_processed r \<le> bound"
    by blast
  with body show ?case
    by (intro exI [of _ p'] exI [of _ disk']) simp
qed

lemma searchTrackBatch_invariant:
  assumes "\<forall>call. writes call"
    and "cursor_invariant p"
    and "0 \<le> b"
    and "tracks_processed p \<le> int (length allTracks)"
    and "\<forall>r \<in> set (fst disk). cursor_invariant r \<and> tracks_processed r \<le> int (length allTracks)"
  shows "\<exists>p' disk'.
      searchTrackBatch writes search allTracks (current_batch_start p) (Num b) (p, disk) =
        (p', disk', True) \<and>
      cursor_invariant p' \<and> tracks_processed p' \<le> int (length allTracks) \<and>
      (\<forall>r \<in> set (fst disk'). cursor_invariant r \<and> tracks_processed r \<le> int (length allTracks))"
proof -
  let ?s = "tracks_processed p"
  let ?n = "int (length allTracks)"
  let ?end = "min (?s + b) ?n"
  let ?batch = "js_slice allTracks ?s ?end"
  from assms(2) have p: "tracks_processed p = int (length (tracks p))"
    "tracks_found p + tracks_not_found p = tracks_processed p"
    "tracks_processed p = ?s + 0"
    and start: "current_batch_start p = Num ?s"
    by (simp_all add: cursor_invariant_def)
  from p have s0: "0 \<le> ?s" by simp
  from assms(3,4) have le: "?s \<le> ?end" "?end \<le> ?n" by simp_all
  from js_slice_length [OF s0 le] have len: "int (length ?batch) = ?end - ?s" .
  then have room: "?s + 0 + int (length ?batch) \<le> ?n" using le by simp
  from batch_loop_invariant [OF assms(1) p assms(5) room, of search]
  obtain q disk1 where
    run: "batch_loop writes search (Num ?s) ?batch 0 (p, disk) = (q, disk1)"
    and q: "tracks_processed q = int (length (tracks q))"
      "tracks_found q + tracks_not_found q = tracks_processed q"
      "tracks_processed q = ?s + 0 + int (length ?batch)"
      "\<forall>r \<in> set (fst disk1). cursor_invariant r \<and> tracks_processed r \<le> ?n"
    by blast
  obtain saved calls where disk1: "disk1 = (saved, calls)" by (cases disk1)
  let ?p' = "q\<lparr>current_batch_start := Num ?end\<rparr>"
  have res: "searchTrackBatch writes search allTracks (current_batch_start p) (Num b) (p, disk) =
      (?p', (saved @ [to_json ?p'], calls + 1), True)"
    using assms(1)
    by (simp add: searchTrackBatch_def Let_def start num_add_def math_min_def to_number_def
        to_integer_def run disk1 saveProgress_def)
  from q(3) len have "tracks_processed q = ?end" by simp
  with q(1,2) le have inv: "cursor_invariant ?p'" "tracks_processed ?p' \<le> ?n"
    by (simp_all add: cursor_invariant_def)
  with q(4) disk1
  have "\<forall>r \<in> set (fst (saved @ [to_json ?p'], calls + 1)).
      cursor_invariant r \<and> tracks_processed r \<le> ?n"
    by (auto simp: cursor_invariant_to_json tracks_processed_to_json)
  with res inv show ?thesis by blast
qed

lemma fresh_progress_invariant:
  "cursor_invariant (loadOrCreateProgress None playlist envBatchSize)"
  by (simp add: loadOrCreateProgress_def cursor_invariant_def)

lemma search_session_invariant:
  assumes "\<forall>call. writes call"
    and "0 \<le> b"
    and "\<forall>r \<in> set (fst disk). cursor_invariant r \<and> tracks_processed r \<le> int (length allTracks)"
  shows "\<forall>r \<in> set (fst (snd (search_session writes search playlist allTracks envBatchSize
                                 (Num b) disk))).
           cursor_invariant r \<and> tracks_processed r \<le> int (length allTracks)"
proof -
  let ?stored = "if fst disk = [] then None else Some (last (fst disk))"
  let ?p = "loadOrCreateProgress ?stored playlist envBatchSize"
  let ?n = "int (length allTracks)"
  have inv: "cursor_invariant ?p" and small: "tracks_processed ?p \<le> ?n"
    using assms(3) fresh_progress_invariant [of playlist envBatchSize]
    by (auto simp: loadOrCreateProgress_def dest: last_in_set)
  from searchTrackBatch_invariant [OF assms(1) inv assms(2) small assms(3), of search]
  obtain p' disk' where
    run: "searchTrackBatch writes search allTracks (current_batch_start ?p) (Num b) (?p, disk) =
        (p', disk', True)"
    and good: "cursor_invariant p'" "tracks_processed p' \<le> ?n"
      "\<forall>r \<in> set (fst disk'). cursor_invariant r \<and> tracks_processed r \<le> ?n"
    by blast
  obtain saved calls where disk': "disk' = (saved, calls)" by (cases disk')
  have "snd (search_session writes search playlist allTracks envBatchSize (Num b) disk) = disk \<or>
      snd (search_session writes search playlist allTracks envBatchSize (Num b) disk) =
        (saved @ [to_json p'], calls + 1)"
    using assms(1) run disk'
    by (simp add: search_session_def Let_def saveProgress_def)
  with good disk' assms(3) show ?thesis
    by (auto simp: cursor_invariant_to_json tracks_processed_to_json)
qed

lemma search_sessions_invariant:
  assumes "\<forall>call. writes call"
    and "\<forall>x \<in> set batchSizes. \<exists>b \<ge> 0. x = Num b"
    and "\<forall>r \<in> set (fst disk). cursor_invariant r \<and> tracks_processed r \<le> int (length allTracks)"
  shows "\<forall>r \<in> set (fst (search_sessions writes search playlist allTracks envBatchSize
                            batchSizes disk)).
           cursor_invariant r \<and> tracks_processed r \<le> int (length allTracks)"
  using assms(2,3)
proof (induction batchSizes arbitrary: disk)
  case Nil
  then show ?case by simp
next
  case (Cons x xs)
  from Cons.prems(1) obtain b where b: "0 \<le> b" "x = Num b" by auto
  have rest: "\<forall>x \<in> set xs. \<exists>b \<ge> 0. x = Num b" using Cons.prems(1) by simp
  from search_session_invariant [OF assms(1) b(1) Cons.prems(2), of search playlist envBatchSize]
  have "\<forall>r \<in> set (fst (snd (search_session writes search playlist allTracks envBatchSize x disk))).
      cursor_invariant r \<and> tracks_processed r \<le> int (length allTracks)"
    by (simp add: b(2))
  from Cons.IH [OF rest this] show ?case by simp
qed

text \<open>
  What the cursor logic achieves: when every write of the progress file succeeds and every
  requested batch size is a non-negative integer, every record written by any number of
  runs over the same track list satisfies the cursor invariant, whatever the search
  returns or throws.
\<close>

lemma cursor_invariant_for_valid_runs:
  assumes "\<forall>call. writes call"
    and "\<forall>x \<in> set batchSizes. \<exists>b \<ge> 0. x = Num b"
  shows "\<forall>r \<in> set (fst (search_sessions writes search playlist allTracks envBatchSize
                            batchSizes ([], 0))).
           cursor_invariant r"
proof -
  have "\<forall>r \<in> set (fst (([], 0) :: progress_file)).
      cursor_invariant r \<and> tracks_processed r \<le> int (length allTracks)"
    by simp
  from search_sessions_invariant [OF assms this, of search playlist envBatchSize]
  show ?thesis by blast
qed

lemma cursor_invariant_for_valid_runs_example:
  "map (\<lambda>p. (current_batch_start p, tracks_processed p))
     (fst (search_sessions every_write example_search example_playlist seven_tracks (Num 50)
        [Num 3, Num 3, Num 3] ([], 0))) =
     [(Num 3, 3), (Num 3, 3), (Num 5, 5), (Num 6, 6), (Num 6, 6), (Num 7, 7), (Num 7, 7)] \<and>
   list_all cursor_invariant
     (fst (search_sessions every_write example_search example_playlist seven_tracks (Num 50)
        [Num 3, Num 3, Num 3] ([], 0)))"
proof -
  have a: "map (\<lambda>p. (current_batch_start p, tracks_processed p))
     (fst (search_sessions every_write example_search example_playlist seven_tracks (Num 50)
        [Num 3, Num 3, Num 3] ([], 0))) =
     [(Num 3, 3), (Num 3, 3), (Num 5, 5), (Num 6, 6), (Num 6, 6), (Num 7, 7), (Num 7, 7)]"
    by code_simp
  have w: "\<forall>call. every_write call"
    by (simp add: every_write_def)
  have sizes: "\<forall>x \<in> set [Num 3, Num 3, Num 3]. \<exists>b \<ge> 0. x = Num b"
    by simp
  from cursor_invariant_for_valid_runs [OF w sizes, of example_search example_playlist seven_tracks "Num 50"]
  have "list_all cursor_invariant
     (fst (search_sessions every_write example_search example_playlist seven_tracks (Num 50)
        [Num 3, Num 3, Num 3] ([], 0)))"
    by (simp add: list_all_iff)
  with a show ?thesis by blast
qed

text \<open>
  C3. The claim is that every record written to the progress file has
  \<open>tracks_processed = tracks.length\<close>, \<open>tracks_found + tracks_not_found =
  tracks_processed\<close> and \<open>current_batch_start = tracks_processed\<close>. The code breaks it on
  a new record and a playlist of seven tracks in three ways. With the batch size -1,
  \<open>slice(0, -1)\<close> yields six tracks and the record written at the end has the cursor -1
  and six tracks processed. With the batch size \<open>NaN\<close> nothing is processed and the
  cursor is written as \<open>null\<close>. With the batch size 7 and a first write that fails (the
  checkpoint after the fifth track), the \<open>catch\<close> block records the fifth track a second
  time and the record written at the end has the cursor 7 and eight tracks processed.
\<close>

theorem cursor_invariant_broken:
  "map (\<lambda>p. (current_batch_start p, tracks_processed p))
     (fst (search_sessions every_write example_search example_playlist seven_tracks (Num 50)
        [Num (- 1)] ([], 0))) = [(Num 5, 5), (Num (- 1), 6), (Num (- 1), 6)] \<and>
   \<not> cursor_invariant
     (last (fst (search_sessions every_write example_search example_playlist seven_tracks (Num 50)
        [Num (- 1)] ([], 0)))) \<and>
   map (\<lambda>p. (current_batch_start p, tracks_processed p))
     (fst (search_sessions every_write example_search example_playlist seven_tracks (Num 50)
        [NaN] ([], 0))) = [(Null, 0), (Null, 0)] \<and>
   \<not> cursor_invariant
     (last (fst (search_sessions every_write example_search example_playlist seven_tracks (Num 50)
        [NaN] ([], 0)))) \<and>
   map (\<lambda>p. (current_batch_start p, tracks_processed p, int (length (tracks p))))
     (fst (search_sessions first_write_fails example_search example_playlist seven_tracks (Num 50)
        [Num 7] ([], 0))) = [(Num 7, 8, 8), (Num 7, 8, 8)] \<and>
   \<not> cursor_invariant
     (last (fst (search_sessions first_write_fails example_search example_playlist seven_tracks
        (Num 50) [Num 7] ([], 0))))"
proof -
  have a: "map (\<lambda>p. (current_batch_start p, tracks_processed p))
     (fst (search_sessions every_write example_search example_playlist seven_tracks (Num 50)
        [Num (- 1)] ([], 0))) = [(Num 5, 5), (Num (- 1), 6), (Num (- 1), 6)]"
    by code_simp
  have a': "\<not> cursor_invariant
     (last (fst (search_sessions every_write example_search example_playlist seven_tracks (Num 50)
        [Num (- 1)] ([], 0))))"
    by code_simp
  have b: "map (\<lambda>p. (current_batch_start p, tracks_processed p))
     (fst (search_sessions every_write example_search example_playlist seven_tracks (Num 50)
        [NaN] ([], 0))) = [(Null, 0), (Null, 0)]"
    by code_simp
  have b': "\<not> cursor_invariant
     (last (fst (search_sessions every_write example_search example_playlist seven_tracks (Num 50)
        [NaN] ([], 0))))"
    by code_simp
  have c: "map (\<lambda>p. (current_batch_start p, tracks_processed p, int (length (tracks p))))
     (fst (search_sessions first_write_fails example_search example_playlist seven_tracks (Num 50)
        [Num 7] ([], 0))) = [(Num 7, 8, 8), (Num 7, 8, 8)]"
    by code_simp
  have c': "\<not> cursor_invariant
     (last (fst (search_sessions first_write_fails example_search example_playlist seven_tracks
        (Num 50) [Num 7] ([], 0))))"
    by code_simp
  from a a' b b' c c' show ?thesis by blast
qed

section \<open>Properties of the playlist build and of the retry\<close>

lemma add_loop_partition:
  assumes "add_loop add pid ts i (A, F, B, Q) = Inr (A', F', B', Q')"
  shows "mset A' + mset (map failed_track F') = mset A + mset (map failed_track F) + mset ts"
  using assms
proof (induction ts arbitrary: i A F B Q)
  case Nil
  then show ?case by simp
next
  case (Cons t ts)
  then show ?case
    by (auto split: option.splits sum.splits if_splits simp: Let_def)
qed

lemma add_loop_breakdown:
  assumes "add_loop add pid ts i (A, F, B, Q) = Inr (A', F', B', Q')"
    and "\<forall>k. B k = (if failure_count F k = 0 then None else Some (failure_count F k))"
  shows "\<forall>k. B' k = (if failure_count F' k = 0 then None else Some (failure_count F' k))"
  using assms
proof (induction ts arbitrary: i A F B Q)
  case Nil
  from Nil(1) have "F' = F" "B' = B" by simp_all
  with Nil(2) show ?case by simp
next
  case (Cons t ts)
  have bump: "\<forall>k. count_failure B (errorType f) k =
      (if failure_count (F @ [f]) k = 0 then None else Some (failure_count (F @ [f]) k))" for f
    using Cons.prems(2) by (simp add: count_failure_def failure_count_def)
  from Cons.prems(1) obtain video where video: "youtube_video t = Some video"
    by (auto split: option.splits)
  show ?case
  proof (cases "add i pid (videoId video)")
    case (Inl thrown)
    let ?f = "\<lparr>failed_track = t, error = ''Unexpected error: '' @ thrown,
               errorType = ''UNEXPECTED_ERROR''\<rparr>"
    from Cons.prems(1) video Inl
    have "add_loop add pid ts (i + 1) (A, F @ [?f], count_failure B (errorType ?f), Q) =
        Inr (A', F', B', Q')"
      by (simp add: Let_def)
    from Cons.IH [OF this bump] show ?thesis .
  next
    case (Inr result)
    show ?thesis
    proof (cases "success result")
      case True
      with Cons.prems(1) video Inr
      have "add_loop add pid ts (i + 1) (A @ [t], F, B, Q + 50) = Inr (A', F', B', Q')"
        by simp
      from Cons.IH [OF this Cons.prems(2)] show ?thesis .
    next
      case False
      let ?f = "\<lparr>failed_track = t, error = or_default (add_error result) ''Unknown error'',
                 errorType = or_default (add_errorType result) ''UNKNOWN''\<rparr>"
      from Cons.prems(1) video Inr False
      have "add_loop add pid ts (i + 1) (A, F @ [?f], count_failure B (errorType ?f), Q) =
          Inr (A', F', B', Q')"
        by (simp add: Let_def)
      from Cons.IH [OF this bump] show ?thesis .
    qed
  qed
qed

lemma build_result:
  assumes "createPlaylistFromResults caps envName description progress = Inr built"
  shows "filter (\<lambda>r. youtube_video r \<noteq> None) (tracks progress) \<noteq> [] \<and>
      add_loop (addVideoToPlaylist caps) (yt_playlist_id (youtube_playlist built))
        (filter (\<lambda>r. youtube_video r \<noteq> None) (tracks progress)) 0 ([], [], Map.empty, 50) =
        Inr (tracks_added built, tracks_failed built, failure_breakdown built, quota_used built) \<and>
      success_rate built =
        rat_of_nat (length (tracks_added built)) /
        rat_of_nat (length (filter (\<lambda>r. youtube_video r \<noteq> None) (tracks progress)))"
  using assms
  by (auto simp: createPlaylistFromResults_def Let_def split: if_splits sum.splits prod.splits)

lemma retry_loop_partition:
  assumes "retry_loop add pid ts i (N, S, Q) = Inr (N', S', Q')"
  shows "\<exists>newly still. N' = N @ newly \<and> S' = S @ still \<and> mset newly + mset still = mset ts"
  using assms
proof (induction ts arbitrary: i N S Q)
  case Nil
  then show ?case by simp
next
  case (Cons t ts)
  from Cons.prems obtain N1 S1 Q1 where
    step: "retry_loop add pid ts (i + 1) (N1, S1, Q1) = Inr (N', S', Q')"
    and one: "(N1 = N @ [t] \<and> S1 = S) \<or> (N1 = N \<and> S1 = S @ [t])"
    by (auto split: option.splits sum.splits if_splits)
  from Cons.IH [OF step] obtain newly still where
    rest: "N' = N1 @ newly" "S' = S1 @ still" "mset newly + mset still = mset ts"
    by blast
  from one show ?case
  proof
    assume "N1 = N @ [t] \<and> S1 = S"
    with rest show ?thesis
      by (intro exI [of _ "t # newly"] exI [of _ still]) simp
  next
    assume "N1 = N \<and> S1 = S @ [t]"
    with rest show ?thesis
      by (intro exI [of _ newly] exI [of _ "t # still"]) simp
  qed
qed

lemma retry_result:
  assumes "retry caps result = Inr retried"
  shows "\<exists>newly.
      tracks_failed result \<noteq> [] \<and>
      tracks_added retried = tracks_added result @ newly \<and>
      mset newly + mset (tracks_failed retried) = mset (tracks_failed result) \<and>
      success_rate retried =
        rat_of_nat (length (tracks_added result) + length newly) /
        rat_of_nat (length (tracks_added result) + length (tracks_failed result)) \<and>
      failure_breakdown retried = Map.empty"
proof -
  from assms have ne: "tracks_failed result \<noteq> []"
    by (auto simp: retry_def split: if_splits)
  with assms obtain N S Q where
    run: "retry_loop (addVideoToPlaylist caps) (yt_playlist_id (youtube_playlist result))
        (tracks_failed result) 0 ([], [], 0) = Inr (N, S, Q)"
    and upd: "retried = updatedResult result (N, S, Q)"
    by (auto simp: retry_def retryFailedTracks_def split: if_splits sum.splits)
  from retry_loop_partition [OF run]
  have "mset N + mset S = mset (tracks_failed result)" by auto
  with ne upd show ?thesis
    by (intro exI [of _ N]) (simp add: updatedResult_def)
qed

text \<open>
  C4. When \<open>createPlaylistFromResults\<close> returns, the results with a video are split
  between \<open>tracks_added\<close> and \<open>tracks_failed\<close>: every occurrence of such a result in the
  progress record is in exactly one of the two (as multisets, added plus failed is the list
  of matched results; when the matched results are pairwise different no result is in
  both). There is at least one of them, and \<open>success_rate\<close> is the number added divided by
  the number added plus the number failed.
\<close>

theorem build_partitions_matches:
  assumes "createPlaylistFromResults caps envName description progress = Inr built"
  shows "mset (tracks_added built) + mset (map failed_track (tracks_failed built)) =
           mset (filter (\<lambda>r. youtube_video r \<noteq> None) (tracks progress)) \<and>
         (distinct (filter (\<lambda>r. youtube_video r \<noteq> None) (tracks progress)) \<longrightarrow>
            set (tracks_added built) \<inter> set (map failed_track (tracks_failed built)) = {}) \<and>
         0 < length (tracks_added built) + length (tracks_failed built) \<and>
         success_rate built =
           rat_of_nat (length (tracks_added built)) /
           rat_of_nat (length (tracks_added built) + length (tracks_failed built))"
proof -
  let ?matched = "filter (\<lambda>r. youtube_video r \<noteq> None) (tracks progress)"
  from build_result [OF assms]
  have ne: "?matched \<noteq> []"
    and run: "add_loop (addVideoToPlaylist caps) (yt_playlist_id (youtube_playlist built))
        ?matched 0 ([], [], Map.empty, 50) =
        Inr (tracks_added built, tracks_failed built, failure_breakdown built, quota_used built)"
    and rate: "success_rate built =
        rat_of_nat (length (tracks_added built)) / rat_of_nat (length ?matched)"
    by blast+
  from add_loop_partition [OF run]
  have split: "mset (tracks_added built) + mset (map failed_track (tracks_failed built)) =
      mset ?matched"
    by simp
  then have "mset (tracks_added built @ map failed_track (tracks_failed built)) = mset ?matched"
    by simp
  from mset_eq_length [OF this]
  have len: "length (tracks_added built) + length (tracks_failed built) = length ?matched"
    by simp
  have disjoint: "set (tracks_added built) \<inter> set (map failed_track (tracks_failed built)) = {}"
    if "distinct ?matched"
  proof -
    from split have "mset (tracks_added built @ map failed_track (tracks_failed built)) =
        mset ?matched"
      by simp
    with that have "distinct (tracks_added built @ map failed_track (tracks_failed built))"
      by (metis mset_eq_imp_distinct_iff)
    then show ?thesis by simp
  qed
  from ne len have "0 < length (tracks_added built) + length (tracks_failed built)"
    by simp
  with split disjoint rate len show ?thesis by simp
qed

theorem build_partitions_matches_witness:
  "\<exists>built. createPlaylistFromResults strict_caps [] ''from Spotify'' example_progress = Inr built \<and>
     tracks_added built = [found_result] \<and>
     map failed_track (tracks_failed built) = [second_result] \<and>
     mset (tracks_added built) + mset (map failed_track (tracks_failed built)) =
       mset (filter (\<lambda>r. youtube_video r \<noteq> None) (tracks example_progress)) \<and>
     success_rate built = 1 / 2"
proof -
  have "\<not> isl (createPlaylistFromResults strict_caps [] ''from Spotify'' example_progress)"
    by code_simp
  then obtain built where
    built: "createPlaylistFromResults strict_caps [] ''from Spotify'' example_progress = Inr built"
    by (cases "createPlaylistFromResults strict_caps [] ''from Spotify'' example_progress") auto
  have "map_sum id tracks_added
      (createPlaylistFromResults strict_caps [] ''from Spotify'' example_progress) =
      Inr [found_result]"
    by code_simp
  with built have a: "tracks_added built = [found_result]" by simp
  have "map_sum id (\<lambda>r. map failed_track (tracks_failed r))
      (createPlaylistFromResults strict_caps [] ''from Spotify'' example_progress) =
      Inr [second_result]"
    by code_simp
  with built have f: "map failed_track (tracks_failed built) = [second_result]" by simp
  from build_partitions_matches [OF built]
  have split: "mset (tracks_added built) + mset (map failed_track (tracks_failed built)) =
       mset (filter (\<lambda>r. youtube_video r \<noteq> None) (tracks example_progress))"
    and rate: "success_rate built =
       rat_of_nat (length (tracks_added built)) /
       rat_of_nat (length (tracks_added built) + length (tracks_failed built))"
    by blast+
  from f have "length (tracks_failed built) = 1"
    by (metis length_map length_Cons list.size(3) One_nat_def)
  with rate a have "success_rate built = 1 / 2" by simp
  with built a f split
  have "createPlaylistFromResults strict_caps [] ''from Spotify'' example_progress = Inr built \<and>
     tracks_added built = [found_result] \<and>
     map failed_track (tracks_failed built) = [second_result] \<and>
     mset (tracks_added built) + mset (map failed_track (tracks_failed built)) =
       mset (filter (\<lambda>r. youtube_video r \<noteq> None) (tracks example_progress)) \<and>
     success_rate built = 1 / 2"
    by simp
  then show ?thesis by (rule exI)
qed

text \<open>
  C5. When the retry saves a result, the added tracks of the loaded result are a prefix of
  the added tracks saved, so no entry leaves \<open>tracks_added\<close>; every failed track of the
  loaded result is attempted once and ends either among the newly added or among the
  tracks still failed. Hence the tracks still failed are drawn from the loaded failed
  tracks, and the number of attempts is the number of loaded failed tracks.
\<close>

theorem retry_monotone:
  assumes "retry caps result = Inr retried"
  shows "\<exists>newly.
      tracks_added retried = tracks_added result @ newly \<and>
      mset newly + mset (tracks_failed retried) = mset (tracks_failed result) \<and>
      set (tracks_added result) \<subseteq> set (tracks_added retried) \<and>
      set (tracks_failed retried) \<subseteq> set (tracks_failed result) \<and>
      length newly + length (tracks_failed retried) \<le> length (tracks_failed result)"
proof -
  from retry_result [OF assms] obtain newly where
    added: "tracks_added retried = tracks_added result @ newly"
    and split: "mset newly + mset (tracks_failed retried) = mset (tracks_failed result)"
    by blast
  from split have "set_mset (mset newly + mset (tracks_failed retried)) =
      set_mset (mset (tracks_failed result))"
    by simp
  then have sub: "set (tracks_failed retried) \<subseteq> set (tracks_failed result)"
    by auto
  from split have "size (mset newly + mset (tracks_failed retried)) =
      size (mset (tracks_failed result))"
    by simp
  then have "length newly + length (tracks_failed retried) = length (tracks_failed result)"
    by simp
  with added split sub show ?thesis
    by (intro exI [of _ newly]) auto
qed

theorem retry_monotone_witness:
  "\<exists>retried. retry lenient_caps one_failed = Inr retried \<and>
     tracks_added one_failed = [found_result] \<and>
     tracks_added retried = [found_result, second_result] \<and>
     tracks_failed retried = [] \<and>
     set (tracks_added one_failed) \<subseteq> set (tracks_added retried)"
proof -
  have "\<not> isl (retry lenient_caps one_failed)"
    by code_simp
  then obtain retried where retried: "retry lenient_caps one_failed = Inr retried"
    by (cases "retry lenient_caps one_failed") auto
  have "map_sum id tracks_added (retry lenient_caps one_failed) =
      Inr [found_result, second_result]"
    by code_simp
  with retried have a: "tracks_added retried = [found_result, second_result]" by simp
  have "map_sum id tracks_failed (retry lenient_caps one_failed) = Inr []"
    by code_simp
  with retried have f: "tracks_failed retried = []" by simp
  have o: "tracks_added one_failed = [found_result]"
    by (simp add: one_failed_def)
  from retry_monotone [OF retried]
  have "set (tracks_added one_failed) \<subseteq> set (tracks_added retried)"
    by blast
  with retried a f o
  have "retry lenient_caps one_failed = Inr retried \<and>
     tracks_added one_failed = [found_result] \<and>
     tracks_added retried = [found_result, second_result] \<and>
     tracks_failed retried = [] \<and>
     set (tracks_added one_failed) \<subseteq> set (tracks_added retried)"
    by simp
  then show ?thesis by (rule exI)
qed

text \<open>
  C9, as amended. After a build, \<open>success_rate\<close> is the share of the matched tracks that
  were added and \<open>failure_breakdown\<close> maps every error type to the number of failures of
  that type (an error type without failure has no entry). After a retry, \<open>success_rate\<close>
  is again the share of added tracks among the added and the failed ones, and
  \<open>failure_breakdown\<close> is the empty object, whatever tracks still fail.
\<close>

theorem stats_after_build_and_retry:
  "(createPlaylistFromResults caps envName description progress = Inr built \<longrightarrow>
      success_rate built =
        rat_of_nat (length (tracks_added built)) /
        rat_of_nat (length (tracks_added built) + length (tracks_failed built)) \<and>
      (\<forall>k. failure_breakdown built k =
         (if failure_count (tracks_failed built) k = 0 then None
          else Some (failure_count (tracks_failed built) k)))) \<and>
   (retry caps result = Inr retried \<longrightarrow>
      success_rate retried =
        rat_of_nat (length (tracks_added retried)) /
        rat_of_nat (length (tracks_added retried) + length (tracks_failed retried)) \<and>
      failure_breakdown retried = Map.empty)"
proof -
  have build: "success_rate built =
        rat_of_nat (length (tracks_added built)) /
        rat_of_nat (length (tracks_added built) + length (tracks_failed built)) \<and>
      (\<forall>k. failure_breakdown built k =
         (if failure_count (tracks_failed built) k = 0 then None
          else Some (failure_count (tracks_failed built) k)))"
    if b: "createPlaylistFromResults caps envName description progress = Inr built"
  proof -
    let ?matched = "filter (\<lambda>r. youtube_video r \<noteq> None) (tracks progress)"
    from build_result [OF b]
    have run: "add_loop (addVideoToPlaylist caps) (yt_playlist_id (youtube_playlist built))
        ?matched 0 ([], [], Map.empty, 50) =
        Inr (tracks_added built, tracks_failed built, failure_breakdown built, quota_used built)"
      and rate: "success_rate built =
        rat_of_nat (length (tracks_added built)) / rat_of_nat (length ?matched)"
      by blast+
    from add_loop_partition [OF run]
    have "mset (tracks_added built @ map failed_track (tracks_failed built)) = mset ?matched"
      by simp
    from mset_eq_length [OF this]
    have len: "length (tracks_added built) + length (tracks_failed built) = length ?matched"
      by simp
    have start: "\<forall>k. Map.empty k =
        (if failure_count [] k = 0 then None else Some (failure_count [] k))"
      by (simp add: failure_count_def)
    from add_loop_breakdown [OF run start] rate len show ?thesis by simp
  qed
  have again: "success_rate retried =
        rat_of_nat (length (tracks_added retried)) /
        rat_of_nat (length (tracks_added retried) + length (tracks_failed retried)) \<and>
      failure_breakdown retried = Map.empty"
    if r: "retry caps result = Inr retried"
  proof -
    from retry_result [OF r] obtain newly where
      added: "tracks_added retried = tracks_added result @ newly"
      and split: "mset newly + mset (tracks_failed retried) = mset (tracks_failed result)"
      and rate: "success_rate retried =
        rat_of_nat (length (tracks_added result) + length newly) /
        rat_of_nat (length (tracks_added result) + length (tracks_failed result))"
      and empty: "failure_breakdown retried = Map.empty"
      by blast
    from split have "size (mset newly + mset (tracks_failed retried)) =
        size (mset (tracks_failed result))"
      by simp
    then have "length newly + length (tracks_failed retried) = length (tracks_failed result)"
      by simp
    with added rate empty show ?thesis by (simp add: add.assoc)
  qed
  from build again show ?thesis by blast
qed

theorem stats_after_build_and_retry_witness:
  "\<exists>built retried.
     createPlaylistFromResults strict_caps [] ''from Spotify'' example_progress = Inr built \<and>
     failure_count (tracks_failed built) ''VIDEO_NOT_FOUND'' = 1 \<and>
     failure_breakdown built ''VIDEO_NOT_FOUND'' = Some 1 \<and>
     failure_breakdown built ''UNKNOWN'' = None \<and>
     retry lenient_caps one_failed = Inr retried \<and>
     success_rate retried = 1 \<and>
     failure_breakdown retried = Map.empty"
proof -
  have "\<not> isl (createPlaylistFromResults strict_caps [] ''from Spotify'' example_progress)"
    by code_simp
  then obtain built where
    built: "createPlaylistFromResults strict_caps [] ''from Spotify'' example_progress = Inr built"
    by (cases "createPlaylistFromResults strict_caps [] ''from Spotify'' example_progress") auto
  have "\<not> isl (retry lenient_caps one_failed)"
    by code_simp
  then obtain retried where retried: "retry lenient_caps one_failed = Inr retried"
    by (cases "retry lenient_caps one_failed") auto
  have "map_sum id (\<lambda>r. (failure_count (tracks_failed r) ''VIDEO_NOT_FOUND'',
          failure_count (tracks_failed r) ''UNKNOWN''))
      (createPlaylistFromResults strict_caps [] ''from Spotify'' example_progress) = Inr (1, 0)"
    by code_simp
  with built have n: "failure_count (tracks_failed built) ''VIDEO_NOT_FOUND'' = 1"
    "failure_count (tracks_failed built) ''UNKNOWN'' = 0"
    by simp_all
  have "map_sum id (\<lambda>r. (length (tracks_added r), length (tracks_failed r)))
      (retry lenient_caps one_failed) = Inr (2, 0)"
    by code_simp
  with retried have l: "length (tracks_added retried) = 2" "length (tracks_failed retried) = 0"
    by simp_all
  from stats_after_build_and_retry
         [of strict_caps "[]" "''from Spotify''" example_progress built one_failed retried] built
  have bd: "\<forall>k. failure_breakdown built k =
         (if failure_count (tracks_failed built) k = 0 then None
          else Some (failure_count (tracks_failed built) k))"
    by blast
  from stats_after_build_and_retry
         [of lenient_caps "[]" "''from Spotify''" example_progress built one_failed retried] retried
  have rate: "success_rate retried =
        rat_of_nat (length (tracks_added retried)) /
        rat_of_nat (length (tracks_added retried) + length (tracks_failed retried))"
    and e: "failure_breakdown retried = Map.empty"
    by blast+
  from bd n have b1: "failure_breakdown built ''VIDEO_NOT_FOUND'' = Some 1"
    and b2: "failure_breakdown built ''UNKNOWN'' = None"
    by simp_all
  from rate l have r1: "success_rate retried = 1" by simp
  from built n(1) b1 b2 retried r1 e
  have "createPlaylistFromResults strict_caps [] ''from Spotify'' example_progress = Inr built \<and>
     failure_count (tracks_failed built) ''VIDEO_NOT_FOUND'' = 1 \<and>
     failure_breakdown built ''VIDEO_NOT_FOUND'' = Some 1 \<and>
     failure_breakdown built ''UNKNOWN'' = None \<and>
     retry lenient_caps one_failed = Inr retried \<and>
     success_rate retried = 1 \<and>
     failure_breakdown retried = Map.empty"
    by simp
  then show ?thesis by (intro exI)
qed

text \<open>
  C9 as stated fails for the retry: the video \<open>v3\<close> is refused again with the error type
  \<open>VIDEO_NOT_FOUND\<close>, one track stays in \<open>tracks_failed\<close>, and the saved
  \<open>failure_breakdown\<close> has no entry for that error type.
\<close>

theorem retry_failure_breakdown_counterexample:
  "addVideoToPlaylist strict_caps 0 ''PL1'' ''v3'' =
     Inr \<lparr>success = False, add_error = Some ''Video not found or has been deleted'',
          add_errorType = Some ''VIDEO_NOT_FOUND''\<rparr> \<and>
   map_sum id (\<lambda>r. (tracks_failed r, failure_breakdown r ''VIDEO_NOT_FOUND''))
     (retry strict_caps one_failed) = Inr ([second_result], None)"
proof -
  have a: "addVideoToPlaylist strict_caps 0 ''PL1'' ''v3'' =
     Inr \<lparr>success = False, add_error = Some ''Video not found or has been deleted'',
          add_errorType = Some ''VIDEO_NOT_FOUND''\<rparr>"
    by (simp add: strict_caps_def)
  have b: "map_sum id (\<lambda>r. (tracks_failed r, failure_breakdown r ''VIDEO_NOT_FOUND''))
     (retry strict_caps one_failed) = Inr ([second_result], None)"
    by code_simp
  from a b show ?thesis by blast
qed

end
